theory Spec2Isabelle
  imports Main "HOL-Library.Char_ord" "HOL-Library.List_Lexorder" "HOL-Library.Product_Lexorder"
    "HOL-Library.Multiset"
begin

text \<open>
  A model of \<^verbatim>\<open>tools/syz-declextract/declextract.go\<close> of syzkaller: the resolver that maps
  the entry points of the kernel's syscall tables to syscall names
  (\<^verbatim>\<open>buildSyscallRenameMap\<close>, \<^verbatim>\<open>parseTblFile\<close>, \<^verbatim>\<open>findTblFiles\<close>), the interface catalog
  (\<^verbatim>\<open>serialize\<close>, \<^verbatim>\<open>finishInterfaces\<close>) and the pipeline that writes, prunes and rewrites the
  synthesized description file (\<^verbatim>\<open>run\<close>). Go maps are partial functions, range loops over
  maps take their iteration order as a parameter, errors and panics are values, and what
  lies outside the file (the file system, the extraction tool, the parser, the type checker
  and the library's sort of more than 12 elements) is a parameter.
\<close>

section \<open>Go library functions used by syz-declextract\<close>

text \<open>
  Go strings are byte sequences: \<open>string\<close> (a \<open>char list\<close>) with the byte order of
  \<open>Char_ord\<close> and the lexicographic order of \<open>List_Lexorder\<close>, which is the order of
  \<^verbatim>\<open>strings.Compare\<close> and of \<^verbatim>\<open>slices.Sort\<close> on strings.
\<close>

definition strings_HasPrefix :: "string \<Rightarrow> string \<Rightarrow> bool" where
  "strings_HasPrefix s p = (take (length p) s = p)"

definition strings_HasSuffix :: "string \<Rightarrow> string \<Rightarrow> bool" where
  "strings_HasSuffix s suf = (length suf \<le> length s \<and> drop (length s - length suf) s = suf)"

definition strings_TrimPrefix :: "string \<Rightarrow> string \<Rightarrow> string" where
  "strings_TrimPrefix s p = (if strings_HasPrefix s p then drop (length p) s else s)"

fun strings_Contains :: "string \<Rightarrow> string \<Rightarrow> bool" where
  "strings_Contains [] sub = (sub = [])"
| "strings_Contains (c # cs) sub = (strings_HasPrefix (c # cs) sub \<or> strings_Contains cs sub)"

definition strings_Compare :: "string \<Rightarrow> string \<Rightarrow> int" where
  "strings_Compare a b = (if a < b then - 1 else if a = b then 0 else 1)"

text \<open>
  \<^verbatim>\<open>strings.Fields\<close> splits around runs of white space as \<^verbatim>\<open>unicode.IsSpace\<close> defines it,
  reading the string as UTF-8. The white space characters are the six ASCII ones (tab, line
  feed, vertical tab, form feed, carriage return, space), U+0085 and U+00A0 (two bytes each),
  and U+1680, U+2000 to U+200A, U+2028, U+2029, U+202F, U+205F and U+3000 (three bytes each).
  Their first bytes are never continuation bytes, so a white space character starts wherever
  its bytes stand; every other byte belongs to a field. \<open>spaceWidth\<close> is the number of bytes
  of the white space character at the head of a string, 0 when there is none.
\<close>

definition asciiSpace :: "char \<Rightarrow> bool" where
  "asciiSpace c = (c = CHR 0x09 \<or> c = CHR 0x0A \<or> c = CHR 0x0B \<or> c = CHR 0x0C
                    \<or> c = CHR 0x0D \<or> c = CHR 0x20)"

definition spaceRune2 :: "char \<Rightarrow> char \<Rightarrow> bool" where
  "spaceRune2 a b = (a = CHR 0xC2 \<and> (b = CHR 0x85 \<or> b = CHR 0xA0))"

definition spaceRune3 :: "char \<Rightarrow> char \<Rightarrow> char \<Rightarrow> bool" where
  "spaceRune3 a b d =
     ((a = CHR 0xE1 \<and> b = CHR 0x9A \<and> d = CHR 0x80) \<or>
      (a = CHR 0xE2 \<and> b = CHR 0x80 \<and>
         (CHR 0x80 \<le> d \<and> d \<le> CHR 0x8A \<or> d = CHR 0xA8 \<or> d = CHR 0xA9 \<or> d = CHR 0xAF)) \<or>
      (a = CHR 0xE2 \<and> b = CHR 0x81 \<and> d = CHR 0x9F) \<or>
      (a = CHR 0xE3 \<and> b = CHR 0x80 \<and> d = CHR 0x80))"

fun spaceWidth :: "string \<Rightarrow> nat" where
  "spaceWidth (a # b # d # rest) =
     (if asciiSpace a then 1 else if spaceRune2 a b then 2 else if spaceRune3 a b d then 3 else 0)"
| "spaceWidth [a, b] = (if asciiSpace a then 1 else if spaceRune2 a b then 2 else 0)"
| "spaceWidth [a] = (if asciiSpace a then 1 else 0)"
| "spaceWidth [] = 0"

text \<open>\<open>fieldsFrom skip cur s\<close>: the fields of \<open>s\<close>, where \<open>skip\<close> bytes of a white space
  character are still to be passed over and \<open>cur\<close> is the field read so far.\<close>

fun fieldsFrom :: "nat \<Rightarrow> string \<Rightarrow> string \<Rightarrow> string list" where
  "fieldsFrom skip cur [] = (if cur = [] then [] else [cur])"
| "fieldsFrom skip cur (c # cs) =
     (if 0 < skip then fieldsFrom (skip - 1) cur cs
      else if 0 < spaceWidth (c # cs)
      then (if cur = [] then fieldsFrom (spaceWidth (c # cs) - 1) [] cs
            else cur # fieldsFrom (spaceWidth (c # cs) - 1) [] cs)
      else fieldsFrom 0 (cur @ [c]) cs)"

definition strings_Fields :: "string \<Rightarrow> string list" where
  "strings_Fields s = fieldsFrom 0 [] s"

text \<open>
  \<^verbatim>\<open>bufio.Scanner\<close> with its default split function \<^verbatim>\<open>ScanLines\<close>: the text between line
  feeds, one trailing carriage return dropped, no token for the empty rest after the last line
  feed. A line of more than 65535 bytes does not fit the scanner's buffer
  (\<^verbatim>\<open>MaxScanTokenSize\<close> is 64 * 1024, line feed included): \<^verbatim>\<open>Scan\<close> returns false there,
  which ends the loop of \<^verbatim>\<open>parseTblFile\<close> (it does not look at \<^verbatim>\<open>s.Err()\<close>).
\<close>

fun linesFrom :: "string \<Rightarrow> string \<Rightarrow> string list" where
  "linesFrom cur [] = (if cur = [] then [] else [cur])"
| "linesFrom cur (c # cs) =
     (if c = CHR 0x0A then cur # linesFrom [] cs else linesFrom (cur @ [c]) cs)"

definition dropCR :: "string \<Rightarrow> string" where
  "dropCR l = (if l \<noteq> [] \<and> last l = CHR 0x0D then butlast l else l)"

definition scanLines :: "string \<Rightarrow> string list" where
  "scanLines data = map dropCR (takeWhile (\<lambda>l. length l \<le> 65535) (linesFrom [] data))"

text \<open>
  A Go map from strings to slices is a partial function; reading a missing key gives the nil
  slice, and \<^verbatim>\<open>m[k] = append(m[k], x)\<close> stores the extended slice.
\<close>

definition lookup :: "('k \<rightharpoonup> 'v list) \<Rightarrow> 'k \<Rightarrow> 'v list" where
  "lookup m k = (case m k of None \<Rightarrow> [] | Some v \<Rightarrow> v)"

definition appendTo :: "('k \<rightharpoonup> 'v list) \<Rightarrow> 'k \<Rightarrow> 'v \<Rightarrow> ('k \<rightharpoonup> 'v list)" where
  "appendTo m k x = m(k \<mapsto> lookup m k @ [x])"

text \<open>
  \<^verbatim>\<open>slices.SortFunc\<close> promises a permutation in ascending order of the comparison function
  and no stability: elements that compare equal may come out in any order.
\<close>

definition sortedPermutation :: "('a \<Rightarrow> 'a \<Rightarrow> int) \<Rightarrow> 'a list \<Rightarrow> 'a list \<Rightarrow> bool" where
  "sortedPermutation cmp xs ys =
     (mset ys = mset xs \<and> sorted_wrt (\<lambda>a b. \<not> cmp b a < 0) ys)"

text \<open>
  For up to 12 elements (\<^verbatim>\<open>maxInsertion\<close>) the library runs \<^verbatim>\<open>insertionSortCmpFunc\<close>: each
  element moves left while it compares less than its left neighbour. \<open>moveLeft\<close> holds the
  sorted prefix in reverse, nearest neighbour first.
\<close>

fun moveLeft :: "('a \<Rightarrow> 'a \<Rightarrow> int) \<Rightarrow> 'a list \<Rightarrow> 'a \<Rightarrow> 'a list" where
  "moveLeft cmp [] x = [x]"
| "moveLeft cmp (y # ys) x = (if cmp x y < 0 then y # moveLeft cmp ys x else x # y # ys)"

definition insertionSortCmpFunc :: "('a \<Rightarrow> 'a \<Rightarrow> int) \<Rightarrow> 'a list \<Rightarrow> 'a list" where
  "insertionSortCmpFunc cmp xs = rev (foldl (moveLeft cmp) [] xs)"

text \<open>
  Above 12 elements the library runs its pattern-defeating quicksort, which is not stable and
  whose code is not part of this repository. The model takes its outcome as the parameter
  \<open>pdqsort\<close> and holds it to the library's promise: an outcome that is not a sorted
  permutation of the input is replaced by the insertion sort, so that every value of the
  parameter stands for a sort that keeps the promise, and every sorted permutation of a slice
  of more than 12 elements is the outcome for some value of the parameter
  (lemma \<open>slices_SortFunc_any_sortedPermutation\<close>).
\<close>

definition slices_SortFunc :: "(('a \<Rightarrow> 'a \<Rightarrow> int) \<Rightarrow> 'a list \<Rightarrow> 'a list)
    \<Rightarrow> ('a \<Rightarrow> 'a \<Rightarrow> int) \<Rightarrow> 'a list \<Rightarrow> 'a list" where
  "slices_SortFunc pdqsort cmp xs =
     (if length xs \<le> 12 then insertionSortCmpFunc cmp xs
      else if sortedPermutation cmp xs (pdqsort cmp xs) then pdqsort cmp xs
      else insertionSortCmpFunc cmp xs)"

text \<open>The order of a range loop over a map: every key once.\<close>

definition rangeOrder :: "('k \<rightharpoonup> 'v) \<Rightarrow> 'k list \<Rightarrow> bool" where
  "rangeOrder m ks = (distinct ks \<and> set ks = dom m)"

section \<open>Parsing the syscall tables (parseTblFile)\<close>

record tblSyscall =
  fn :: string
  arch :: string
  is64bit :: bool

type_synonym syscallTable = "string \<rightharpoonup> tblSyscall list"

text \<open>The body of the loop over the lines of one table file; each \<^verbatim>\<open>continue\<close> leaves the
  map as it is.\<close>

definition parseTblLine :: "string \<Rightarrow> string \<Rightarrow> syscallTable \<Rightarrow> syscallTable" where
  "parseTblLine line archName syscalls =
     (let fields = strings_Fields line in
      if length fields < 4 \<or> fields ! 0 = ''#'' then syscalls
      else
        let group = fields ! 1;
            syscall = fields ! 2;
            f = strings_TrimPrefix (fields ! 3) ''sys_''
        in if strings_HasPrefix syscall ''unused'' \<or> f = ''-'' \<or> group = ''spu''
              \<or> syscall = ''llseek'' \<or> syscall = ''reboot''
           then syscalls
           else appendTo syscalls syscall
                  \<lparr>fn = f, arch = archName,
                   is64bit = (group = ''common'' \<or> strings_Contains group ''64'')\<rparr>)"

definition parseTblFile :: "string \<Rightarrow> string \<Rightarrow> syscallTable \<Rightarrow> syscallTable" where
  "parseTblFile data archName syscalls =
     fold (\<lambda>line s. parseTblLine line archName s) (scanLines data) syscalls"

section \<open>Discovering the table files (findTblFiles)\<close>

datatype error =
    NoTblFiles string  \<comment> \<open>"found no *.tbl files in the kernel dir ..."\<close>
  | OsError string  \<comment> \<open>an error of \<^verbatim>\<open>filepath.Walk\<close> or \<^verbatim>\<open>os.ReadFile\<close>\<close>
  | IndexOutOfRange  \<comment> \<open>the run-time panic of \<^verbatim>\<open>descs[0]\<close> on an empty slice\<close>

text \<open>The two fields of \<^verbatim>\<open>targets.Target\<close> that the tool reads. The package \<^verbatim>\<open>sys/targets\<close>
  is outside the tool, so the list \<^verbatim>\<open>targets.List[target.OS]\<close> (in the order in which this run
  of the range loop visits it) and the name \<^verbatim>\<open>target.Arch\<close> are parameters.\<close>

record archTarget =
  KernelHeaderArch :: string
  VMArch :: string

text \<open>
  The file system as \<^verbatim>\<open>filepath.Walk\<close> shows it: for the path elements that
  \<^verbatim>\<open>filepath.Join\<close> receives, the calls of the walk function in order, each with the path
  visited and the error passed (\<open>None\<close> for nil). The walk function returns the error it was
  given, and \<^verbatim>\<open>Walk\<close> stops at the first error that is not nil and returns it.
\<close>

type_synonym fileTree = "string list \<Rightarrow> (string \<times> string option) list"

type_synonym tblFileMap = "string \<rightharpoonup> string list"

fun walkFn :: "string \<Rightarrow> (string \<times> string option) list \<Rightarrow> tblFileMap \<Rightarrow> error + tblFileMap" where
  "walkFn vm [] files = Inr files"
| "walkFn vm ((file, err) # rest) files =
     (let files' = (if err = None \<and> strings_HasSuffix file ''.tbl''
                    then appendTo files file vm else files)
      in case err of
           Some e \<Rightarrow> Inl (OsError e)
         | None \<Rightarrow> walkFn vm rest files')"

fun findArches :: "fileTree \<Rightarrow> string \<Rightarrow> archTarget list \<Rightarrow> tblFileMap \<Rightarrow> error + tblFileMap" where
  "findArches walk sourceDir [] files = Inr files"
| "findArches walk sourceDir (a # rest) files =
     (case walkFn (VMArch a) (walk [sourceDir, ''arch'', KernelHeaderArch a]) files of
        Inl e \<Rightarrow> Inl e
      | Inr files' \<Rightarrow> findArches walk sourceDir rest files')"

definition findTblFiles :: "fileTree \<Rightarrow> archTarget list \<Rightarrow> string \<Rightarrow> error + tblFileMap" where
  "findTblFiles walk targetsList sourceDir = findArches walk sourceDir targetsList Map.empty"

section \<open>Choosing the entry point of each syscall (buildSyscallRenameMap)\<close>

text \<open>The comparison function handed to \<^verbatim>\<open>slices.SortFunc\<close>.\<close>

definition cmpTbl :: "string \<Rightarrow> tblSyscall \<Rightarrow> tblSyscall \<Rightarrow> int" where
  "cmpTbl targetArch a b =
     (if (arch a = targetArch) \<noteq> (arch b = targetArch)
      then (if arch a = targetArch then - 1 else 1)
      else if is64bit a \<noteq> is64bit b
      then (if is64bit a then - 1 else 1)
      else strings_Compare (arch a) (arch b))"

type_synonym renameMap = "string \<rightharpoonup> string list"

text \<open>The loop \<^verbatim>\<open>for _, arch := range arches\<close>: the file is read once per architecture.
  \<open>readFile\<close> is \<^verbatim>\<open>os.ReadFile\<close> on the given file system (\<open>Inl\<close> its error).\<close>

fun parseArches :: "(string \<Rightarrow> string + string) \<Rightarrow> string \<Rightarrow> string list \<Rightarrow> syscallTable
    \<Rightarrow> error + syscallTable" where
  "parseArches readFile file [] syscalls = Inr syscalls"
| "parseArches readFile file (a # rest) syscalls =
     (case readFile file of
        Inl e \<Rightarrow> Inl (OsError e)
      | Inr data \<Rightarrow> parseArches readFile file rest (parseTblFile data a syscalls))"

text \<open>A range loop over a Go map visits every key once, in an order the language leaves open
  and that differs from run to run; the order of a run is a parameter of the loop.\<close>

fun parseFiles :: "(string \<Rightarrow> string + string) \<Rightarrow> tblFileMap \<Rightarrow> string list \<Rightarrow> syscallTable
    \<Rightarrow> error + syscallTable" where
  "parseFiles readFile tblFiles [] syscalls = Inr syscalls"
| "parseFiles readFile tblFiles (file # rest) syscalls =
     (case parseArches readFile file (lookup tblFiles file) syscalls of
        Inl e \<Rightarrow> Inl e
      | Inr syscalls' \<Rightarrow> parseFiles readFile tblFiles rest syscalls')"

type_synonym tblSort = "(tblSyscall \<Rightarrow> tblSyscall \<Rightarrow> int) \<Rightarrow> tblSyscall list \<Rightarrow> tblSyscall list"

fun renameLoop :: "tblSort \<Rightarrow> string \<Rightarrow> syscallTable \<Rightarrow> string list \<Rightarrow> renameMap
    \<Rightarrow> error + renameMap" where
  "renameLoop pdqsort targetArch syscalls [] rename = Inr rename"
| "renameLoop pdqsort targetArch syscalls (syscall # rest) rename =
     (case slices_SortFunc pdqsort (cmpTbl targetArch) (lookup syscalls syscall) of
        [] \<Rightarrow> Inl IndexOutOfRange
      | d # _ \<Rightarrow> renameLoop pdqsort targetArch syscalls rest (appendTo rename (fn d) syscall))"

text \<open>
  \<open>fileOrder\<close> and \<open>syscallOrder\<close> are the orders in which this run's two range loops visit
  the keys of \<open>tblFiles\<close> and of \<open>syscalls\<close>.
\<close>

definition buildSyscallRenameMap :: "tblSort \<Rightarrow> string \<Rightarrow> archTarget list \<Rightarrow> fileTree
    \<Rightarrow> (string \<Rightarrow> string + string) \<Rightarrow> string list \<Rightarrow> string list \<Rightarrow> string
    \<Rightarrow> error + renameMap" where
  "buildSyscallRenameMap pdqsort targetArch targetsList walk readFile fileOrder syscallOrder
       sourceDir =
     (case findTblFiles walk targetsList sourceDir of
        Inl e \<Rightarrow> Inl e
      | Inr tblFiles \<Rightarrow>
          if dom tblFiles = {} then Inl (NoTblFiles sourceDir)
          else (case parseFiles readFile tblFiles fileOrder Map.empty of
                  Inl e \<Rightarrow> Inl e
                | Inr syscalls \<Rightarrow> renameLoop pdqsort targetArch syscalls syscallOrder Map.empty))"

section \<open>The interface catalog (serialize, finishInterfaces)\<close>

text \<open>
  Modelled from the spec: the struct \<^verbatim>\<open>declextract.Interface\<close> is declared in
  \<^verbatim>\<open>pkg/declextract\<close>, outside the tool; its fields are those the tool reads and writes,
  with the types of the specification's Interface Record. The tool holds a slice of pointers
  to such records and updates them in place, so the records live in a store from addresses
  to records and the slice is a list of addresses.
\<close>

record interface =
  Type :: string
  Name :: string
  IdentifyingConst :: string
  Files :: "string list"
  Func :: string
  Access :: string
  Subsystems :: "string list"
  ManualDescriptions :: bool
  AutoDescriptions :: bool

type_synonym ifaceStore = "nat \<Rightarrow> interface"

text \<open>The verb \<^verbatim>\<open>%v\<close> prints a string as it is and a bool as \<open>true\<close> or \<open>false\<close>.\<close>

definition fmtBool :: "bool \<Rightarrow> string" where
  "fmtBool b = (if b then ''true'' else ''false'')"

definition serializeOne :: "interface \<Rightarrow> string" where
  "serializeOne iface =
     Type iface @ [CHR 0x09] @ Name iface @ [CHR 0x09] @ ''func:'' @ Func iface @ [CHR 0x09]
       @ ''access:'' @ Access iface @ [CHR 0x09]
       @ ''manual_desc:'' @ fmtBool (ManualDescriptions iface) @ [CHR 0x09]
       @ ''auto_desc:'' @ fmtBool (AutoDescriptions iface)
       @ concat (map (\<lambda>file. [CHR 0x09] @ ''file:'' @ file) (Files iface))
       @ concat (map (\<lambda>subsys. [CHR 0x09] @ ''subsystem:'' @ subsys) (Subsystems iface))
       @ [CHR 0x0A]"

definition serialize :: "nat list \<Rightarrow> ifaceStore \<Rightarrow> string" where
  "serialize interfaces store = concat (map (\<lambda>p. serializeOne (store p)) interfaces)"

text \<open>
  The first loop of \<^verbatim>\<open>finishInterfaces\<close>. \<open>consts\<close> are the entries of the map returned by
  \<^verbatim>\<open>compiler.ExtractConsts\<close> (file name and the names of the constants of that file) in the
  order in which the range loop visits them; \<open>manual\<close> is a \<^verbatim>\<open>map[string]bool\<close>, false at a
  missing key.
\<close>

definition manualConsts :: "string \<Rightarrow> (string \<times> string list) list \<Rightarrow> string \<Rightarrow> bool" where
  "manualConsts autoFile consts =
     fold (\<lambda>(file, names) manual.
             fold (\<lambda>c m. if file \<noteq> autoFile then m(c := True) else m) names manual)
          consts (\<lambda>_. False)"

text \<open>
  The body of the second loop. \<open>extract\<close> is the subsystem extractor: from the guilty paths of
  the crashes built from the record's files to the names of the subsystems returned.
  \<^verbatim>\<open>slices.Sort\<close> on strings gives the ascending list, which is unique.
\<close>

definition finishOne :: "(string \<Rightarrow> bool) \<Rightarrow> (string list \<Rightarrow> string list) \<Rightarrow> interface \<Rightarrow> interface" where
  "finishOne manual extract iface =
     iface\<lparr>ManualDescriptions := manual (IdentifyingConst iface),
           Subsystems := sort (Subsystems iface @ extract (Files iface))\<rparr>"

definition finishInterfaces :: "nat list \<Rightarrow> (string \<times> string list) list \<Rightarrow> string
    \<Rightarrow> (string list \<Rightarrow> string list) \<Rightarrow> ifaceStore \<Rightarrow> ifaceStore" where
  "finishInterfaces interfaces consts autoFile extract store =
     fold (\<lambda>p st. st(p := finishOne (manualConsts autoFile consts) extract (st p)))
       interfaces store"

section \<open>Pruning the parsed descriptions\<close>

text \<open>
  Modelled from the spec: \<^verbatim>\<open>ast.Node\<close> is declared in \<^verbatim>\<open>pkg/ast\<close>; the tool reads only what
  \<^verbatim>\<open>Info()\<close> returns: the file of the position, the kind and the name. The rest of a node is
  the record's extension.
\<close>

record node =
  nodeFile :: string
  nodeTyp :: string
  nodeName :: string

definition unusedMap :: "'a node_scheme list \<Rightarrow> string \<Rightarrow> bool" where
  "unusedMap unusedNodes =
     fold (\<lambda>n unused. unused(nodeTyp n @ nodeName n := True)) unusedNodes (\<lambda>_. False)"

text \<open>\<^verbatim>\<open>slices.DeleteFunc\<close> removes the elements for which the function returns true and
  keeps the others in their order.\<close>

definition prune :: "string \<Rightarrow> (string \<Rightarrow> bool) \<Rightarrow> 'a node_scheme list \<Rightarrow> 'a node_scheme list" where
  "prune autoFile unused nodes =
     filter (\<lambda>n. \<not> (nodeFile n \<noteq> autoFile \<or> unused (nodeTyp n @ nodeName n))) nodes"

section \<open>The pipeline (run)\<close>

text \<open>
  The directory of description files is a map from paths to contents.
  \<^verbatim>\<open>osutil.WriteFile\<close> either stores the data at the path or fails; the oracle \<open>wr\<close> says
  which, and on a failure what the failed write left at the path (\<open>None\<close>: no file).
\<close>

type_synonym fileSystem = "string \<rightharpoonup> string"

type_synonym writeOracle = "string \<Rightarrow> string \<Rightarrow> (string \<times> string option) option"

datatype runError =
    RenameMapFailed error  \<comment> \<open>"failed to build syscall rename map: ..."\<close>
  | ExternalError string  \<comment> \<open>the error of \<^verbatim>\<open>clangtool.Run\<close> or \<^verbatim>\<open>declextract.Run\<close>\<close>
  | WriteError string  \<comment> \<open>the error of \<^verbatim>\<open>osutil.WriteFile\<close>\<close>
  | ParseFailed string  \<comment> \<open>"failed to parse descriptions" and the diagnostics\<close>
  | TypecheckFailed "string option" string
      \<comment> \<open>"failed to typecheck descriptions: ...", the error if any, and the diagnostics\<close>
  | NilPointer  \<comment> \<open>the run-time panic of \<^verbatim>\<open>ast.Format\<close> on the nil result of \<^verbatim>\<open>ast.Parse\<close>\<close>

definition osutil_WriteFile :: "writeOracle \<Rightarrow> string \<Rightarrow> string \<Rightarrow> fileSystem
    \<Rightarrow> runError option \<times> fileSystem" where
  "osutil_WriteFile wr path data fs =
     (case wr path data of
        None \<Rightarrow> (None, fs(path \<mapsto> data))
      | Some (msg, left) \<Rightarrow> (Some (WriteError msg), fs(path := left)))"

text \<open>
  The collaborators of \<^verbatim>\<open>run\<close>, which are outside the tool: the extraction
  (\<^verbatim>\<open>clangtool.Run\<close>, \<^verbatim>\<open>declextract.Run\<close>, which returns the description text, the slice of
  interface pointers and the records they point to), the parser and formatter
  (\<^verbatim>\<open>ast.ParseGlob\<close> on the pattern \<^verbatim>\<open>*.txt\<close> in the directory of the auto file, reading the
  description directory; \<^verbatim>\<open>ast.Parse\<close>, nil as \<open>None\<close>; \<^verbatim>\<open>ast.Format\<close>), the type checker
  (\<^verbatim>\<open>compiler.CollectUnused\<close>, \<^verbatim>\<open>compiler.ExtractConsts\<close>, each on a clone of the parsed
  descriptions) and the subsystem extractor. \<open>Inl\<close> carries the error or the collected
  diagnostics. They are functions of their arguments: none of them writes a description file.
\<close>

record ('out, 'a) collaborators =
  clangtool_Run :: "string + 'out"
  declextract_Run :: "'out \<Rightarrow> renameMap \<Rightarrow> string + (string \<times> nat list \<times> ifaceStore)"
  ast_ParseGlob :: "fileSystem \<Rightarrow> string \<Rightarrow> string + 'a node_scheme list"
  compiler_CollectUnused :: "'a node_scheme list \<Rightarrow> (string \<times> string) + 'a node_scheme list"
  compiler_ExtractConsts :: "'a node_scheme list \<Rightarrow> string + (string \<times> string list) list"
  ast_Format :: "'a node_scheme list \<Rightarrow> string"
  ast_Parse :: "string \<Rightarrow> string \<Rightarrow> 'a node_scheme list option"
  subsystem_Extract :: "string list \<Rightarrow> string list"

text \<open>
  \<^verbatim>\<open>run\<close>, with the result of \<^verbatim>\<open>buildSyscallRenameMap(cfg.KernelSrc)\<close> as its first step. It
  returns the error (\<open>None\<close> for nil) and the description directory it leaves.
\<close>

definition run :: "('out, 'a) collaborators \<Rightarrow> writeOracle \<Rightarrow> error + renameMap \<Rightarrow> string
    \<Rightarrow> fileSystem \<Rightarrow> runError option \<times> fileSystem" where
  "run c wr syscallRenameResult autoFile fs =
     (case syscallRenameResult of
        Inl e \<Rightarrow> (Some (RenameMapFailed e), fs)
      | Inr syscallRename \<Rightarrow>
     (case clangtool_Run c of
        Inl m \<Rightarrow> (Some (ExternalError m), fs)
      | Inr out \<Rightarrow>
     (case declextract_Run c out syscallRename of
        Inl m \<Rightarrow> (Some (ExternalError m), fs)
      | Inr (descriptions, interfaces, store) \<Rightarrow>
     (case osutil_WriteFile wr autoFile descriptions fs of
        (Some e, fs1) \<Rightarrow> (Some e, fs1)
      | (None, fs1) \<Rightarrow>
     (case osutil_WriteFile wr (autoFile @ ''.info'') (serialize interfaces store) fs1 of
        (Some e, fs2) \<Rightarrow> (Some e, fs2)
      | (None, fs2) \<Rightarrow>
     (case ast_ParseGlob c fs2 autoFile of
        Inl diag \<Rightarrow> (Some (ParseFailed diag), fs2)
      | Inr desc \<Rightarrow>
     (case compiler_CollectUnused c desc of
        Inl (m, diag) \<Rightarrow> (Some (TypecheckFailed (Some m) diag), fs2)
      | Inr unusedNodes \<Rightarrow>
     (case compiler_ExtractConsts c desc of
        Inl diag \<Rightarrow> (Some (TypecheckFailed None diag), fs2)
      | Inr consts \<Rightarrow>
     (case osutil_WriteFile wr (autoFile @ ''.info'')
             (serialize interfaces
                (finishInterfaces interfaces consts autoFile (subsystem_Extract c) store)) fs2 of
        (Some e, fs3) \<Rightarrow> (Some e, fs3)
      | (None, fs3) \<Rightarrow>
     (case ast_Parse c (ast_Format c (prune autoFile (unusedMap unusedNodes) desc)) autoFile of
        None \<Rightarrow> (Some NilPointer, fs3)
      | Some formatted \<Rightarrow>
          osutil_WriteFile wr autoFile (ast_Format c formatted) fs3))))))))))"

section \<open>Notions that state the claims\<close>

text \<open>The exclusion filter as the specification lists it, on the group, the syscall name and
  the stripped entry symbol of a line.\<close>

definition exclusionFilter :: "string \<Rightarrow> string \<Rightarrow> string \<Rightarrow> bool" where
  "exclusionFilter grp syscall entry =
     ((\<exists>rest. syscall = ''unused'' @ rest) \<or> entry = ''-'' \<or> grp = ''spu''
      \<or> syscall = ''llseek'' \<or> syscall = ''reboot'')"

text \<open>The entry symbol of a table field: the kernel-internal prefix \<^verbatim>\<open>sys_\<close> stripped.\<close>

definition strippedSymbol :: "string \<Rightarrow> string" where
  "strippedSymbol field = (if \<exists>rest. field = ''sys_'' @ rest then drop (length ''sys_'') field else field)"

text \<open>What a table line contributes: nothing when it is ignored or discarded, else the
  syscall name, the entry symbol and the 64-bit flag of its record.\<close>

definition tblCandidate :: "string \<Rightarrow> (string \<times> string \<times> bool) option" where
  "tblCandidate line =
     (let fields = strings_Fields line in
      if length fields < 4 \<or> fields ! 0 = ''#'' then None
      else if exclusionFilter (fields ! 1) (fields ! 2) (strippedSymbol (fields ! 3)) then None
      else Some (fields ! 2, strippedSymbol (fields ! 3),
                 fields ! 1 = ''common'' \<or> (\<exists>pre post. fields ! 1 = pre @ ''64'' @ post)))"

text \<open>The tie-break as a priority tuple, compared lexicographically with \<open>False < True\<close>:
  records of the target architecture first, then 64-bit records, then the architecture name
  in ascending order.\<close>

definition priorityTuple :: "string \<Rightarrow> tblSyscall \<Rightarrow> bool \<times> bool \<times> string" where
  "priorityTuple targetArch r = (arch r \<noteq> targetArch, \<not> is64bit r, arch r)"

text \<open>The symbol chosen for a syscall name: that of the first record of its sorted candidate
  list.\<close>

definition winner :: "tblSort \<Rightarrow> string \<Rightarrow> syscallTable \<Rightarrow> string \<Rightarrow> string" where
  "winner pdqsort targetArch syscalls name =
     fn (hd (slices_SortFunc pdqsort (cmpTbl targetArch) (lookup syscalls name)))"

text \<open>The tie-break winners of a candidate list, in the specification's words: the entry
  symbols of the records that no other record precedes in the tie-break order. There are
  several when records of the first rank name different symbols.\<close>

definition firstRanked :: "string \<Rightarrow> tblSyscall list \<Rightarrow> string \<Rightarrow> bool" where
  "firstRanked targetArch descs en =
     (\<exists>r\<in>set descs. fn r = en \<and>
        (\<forall>x\<in>set descs. priorityTuple targetArch r \<le> priorityTuple targetArch x))"

text \<open>The tie-break leaves no choice: for every syscall name, the candidate records that are
  first in the tie-break order all name the same entry symbol.\<close>

definition firstRankAgree :: "string \<Rightarrow> syscallTable \<Rightarrow> bool" where
  "firstRankAgree targetArch syscalls =
     (\<forall>name. \<forall>r\<in>set (lookup syscalls name). \<forall>r'\<in>set (lookup syscalls name).
        (\<forall>x\<in>set (lookup syscalls name). priorityTuple targetArch r \<le> priorityTuple targetArch x) \<and>
        (\<forall>x\<in>set (lookup syscalls name). priorityTuple targetArch r' \<le> priorityTuple targetArch x)
        \<longrightarrow> fn r = fn r')"

text \<open>Tab-separated fields: joining fields with tabs, and splitting a line at its tabs.\<close>

fun joinTab :: "string list \<Rightarrow> string" where
  "joinTab [] = []"
| "joinTab [f] = f"
| "joinTab (f # g # fs) = f @ [CHR 0x09] @ joinTab (g # fs)"

fun splitTab :: "string \<Rightarrow> string \<Rightarrow> string list" where
  "splitTab cur [] = [cur]"
| "splitTab cur (c # cs) = (if c = CHR 0x09 then cur # splitTab [] cs else splitTab (cur @ [c]) cs)"

text \<open>The fields of a catalog line as the specification lists them: the fixed fields, then one
  \<open>file:\<close> field per file, then one \<open>subsystem:\<close> field per subsystem.\<close>

definition catalogFields :: "interface \<Rightarrow> string list" where
  "catalogFields iface =
     [Type iface, Name iface, ''func:'' @ Func iface, ''access:'' @ Access iface,
      ''manual_desc:'' @ fmtBool (ManualDescriptions iface),
      ''auto_desc:'' @ fmtBool (AutoDescriptions iface)]
     @ map (\<lambda>file. ''file:'' @ file) (Files iface)
     @ map (\<lambda>subsys. ''subsystem:'' @ subsys) (Subsystems iface)"

text \<open>What enrichment does to one record, whatever the number of times the slice points to
  it.\<close>

definition enriched :: "(string \<Rightarrow> bool) \<Rightarrow> (string list \<Rightarrow> string list) \<Rightarrow> interface \<Rightarrow> interface \<Rightarrow> bool" where
  "enriched manual extract old new =
     (ManualDescriptions new = manual (IdentifyingConst old) \<and>
      set (Subsystems new) = set (Subsystems old) \<union> set (extract (Files old)) \<and>
      sorted (Subsystems new) \<and>
      (if Subsystems old = [] \<and> extract (Files old) = [] then Subsystems new = [] else True) \<and>
      Type new = Type old \<and> Name new = Name old \<and> IdentifyingConst new = IdentifyingConst old \<and>
      Files new = Files old \<and> Func new = Func old \<and> Access new = Access old \<and>
      AutoDescriptions new = AutoDescriptions old)"

text \<open>Every walk of discovery runs to its end: no call of the walk function is passed an
  error.\<close>

definition walksComplete :: "fileTree \<Rightarrow> archTarget list \<Rightarrow> string \<Rightarrow> bool" where
  "walksComplete walk targetsList sourceDir =
     (\<forall>a\<in>set targetsList.
        \<forall>pe\<in>set (walk [sourceDir, ''arch'', KernelHeaderArch a]). snd pe = None)"

subsection \<open>What the loops have collected\<close>

text \<open>Stored slices are never empty: every key of the table has a record.\<close>

definition noEmptyEntry :: "('k \<rightharpoonup> 'v list) \<Rightarrow> bool" where
  "noEmptyEntry m = (\<forall>k. m k \<noteq> Some [])"

text \<open>The text of a table file (empty when it cannot be read), the records that the lines of
  a text give a syscall name for one architecture, and those that a table file gives it for
  all the architectures it serves.\<close>

definition contents :: "(string \<Rightarrow> string + string) \<Rightarrow> string \<Rightarrow> string" where
  "contents readFile file = (case readFile file of Inl e \<Rightarrow> [] | Inr data \<Rightarrow> data)"

definition fileRecords :: "string \<Rightarrow> string \<Rightarrow> string \<Rightarrow> tblSyscall list" where
  "fileRecords data archName name =
     concat (map (\<lambda>line. case tblCandidate line of
                            None \<Rightarrow> []
                          | Some (n, f, b) \<Rightarrow>
                              if n = name then [\<lparr>fn = f, arch = archName, is64bit = b\<rparr>] else [])
                 (scanLines data))"

definition tableRecords :: "(string \<Rightarrow> string + string) \<Rightarrow> tblFileMap \<Rightarrow> string \<Rightarrow> string
    \<Rightarrow> tblSyscall list" where
  "tableRecords readFile tblFiles name file =
     concat (map (\<lambda>a. fileRecords (contents readFile file) a name) (lookup tblFiles file))"

text \<open>The architecture names that the walk for one architecture files under a path.\<close>

definition archHits :: "fileTree \<Rightarrow> string \<Rightarrow> string \<Rightarrow> archTarget \<Rightarrow> string list" where
  "archHits walk sourceDir f a =
     map (\<lambda>_. VMArch a)
       (filter (\<lambda>(p, e). p = f \<and> strings_HasSuffix p ''.tbl'')
          (walk [sourceDir, ''arch'', KernelHeaderArch a]))"

section \<open>Example inputs\<close>

text \<open>
  A kernel tree \<open>k\<close> with one table file for x86 (architecture name \<open>amd64\<close>) and one for
  arm64. The x86 table has a comment line, \<open>read\<close>, the two names \<open>umount\<close> and
  \<open>umount2\<close> with the same entry point, and a \<open>reboot\<close> line; the arm64 table gives
  \<open>read\<close> another entry point. \<open>exTblFiles\<close> and \<open>exSyscalls\<close> are what discovery and
  parsing return for it (\<open>exTblFilesRev\<close> and \<open>exSyscallsRev\<close> with arm64 visited first).
\<close>

definition exTargets :: "archTarget list" where
  "exTargets = [\<lparr>KernelHeaderArch = ''x86'', VMArch = ''amd64''\<rparr>,
                \<lparr>KernelHeaderArch = ''arm64'', VMArch = ''arm64''\<rparr>]"

definition exWalk :: fileTree where
  "exWalk p =
     (if p = [''k'', ''arch'', ''x86'']
      then [(''k/arch/x86'', None), (''k/arch/x86/s.tbl'', None), (''k/arch/x86/Makefile'', None)]
      else if p = [''k'', ''arch'', ''arm64'']
      then [(''k/arch/arm64'', None), (''k/arch/arm64/s.tbl'', None)]
      else [])"

definition exRead :: "string \<Rightarrow> string + string" where
  "exRead f =
     (if f = ''k/arch/x86/s.tbl''
      then Inr (''# nr abi name entry'' @ [CHR 0x0A] @
                ''0 common read sys_read'' @ [CHR 0x0A] @
                ''22 i386 umount sys_umount'' @ [CHR 0x0A] @
                ''52 common umount2 sys_umount'' @ [CHR 0x0A] @
                ''88 common reboot sys_reboot'' @ [CHR 0x0A])
      else if f = ''k/arch/arm64/s.tbl''
      then Inr (''63 common read sys_read_arm'' @ [CHR 0x0A])
      else Inl ''no such file'')"

definition exTblFiles :: tblFileMap where
  "exTblFiles = [''k/arch/x86/s.tbl'' \<mapsto> [''amd64''], ''k/arch/arm64/s.tbl'' \<mapsto> [''arm64'']]"

definition exSyscalls :: syscallTable where
  "exSyscalls =
     [''umount'' \<mapsto> [\<lparr>fn = ''umount'', arch = ''amd64'', is64bit = False\<rparr>],
      ''umount2'' \<mapsto> [\<lparr>fn = ''umount'', arch = ''amd64'', is64bit = True\<rparr>],
      ''read'' \<mapsto> [\<lparr>fn = ''read'', arch = ''amd64'', is64bit = True\<rparr>,
                    \<lparr>fn = ''read_arm'', arch = ''arm64'', is64bit = True\<rparr>]]"

definition exTblFilesRev :: tblFileMap where
  "exTblFilesRev = [''k/arch/arm64/s.tbl'' \<mapsto> [''arm64''], ''k/arch/x86/s.tbl'' \<mapsto> [''amd64'']]"

definition exSyscallsRev :: syscallTable where
  "exSyscallsRev =
     [''read'' \<mapsto> [\<lparr>fn = ''read_arm'', arch = ''arm64'', is64bit = True\<rparr>,
                    \<lparr>fn = ''read'', arch = ''amd64'', is64bit = True\<rparr>],
      ''umount'' \<mapsto> [\<lparr>fn = ''umount'', arch = ''amd64'', is64bit = False\<rparr>],
      ''umount2'' \<mapsto> [\<lparr>fn = ''umount'', arch = ''amd64'', is64bit = True\<rparr>]]"

text \<open>A source directory that does not exist: the first call of the walk function gets the
  error.\<close>

definition noTreeWalk :: fileTree where
  "noTreeWalk p = [(''missing/arch/x86'', Some ''lstat missing/arch/x86: no such file or directory'')]"

text \<open>The example tree without its directory for arm64: the walk below \<open>k/arch/x86\<close>
  finds the table file, the walk below \<open>k/arch/arm64\<close> gets the error. \<open>partTblFiles\<close> is
  what discovery holds when the second walk starts, \<open>partSyscalls\<close> what parsing makes of
  it.\<close>

definition partWalk :: fileTree where
  "partWalk p =
     (if p = [''k'', ''arch'', ''x86'']
      then [(''k/arch/x86'', None), (''k/arch/x86/s.tbl'', None), (''k/arch/x86/Makefile'', None)]
      else [(''k/arch/arm64'', Some ''lstat k/arch/arm64: no such file or directory'')])"

definition partTblFiles :: tblFileMap where
  "partTblFiles = [''k/arch/x86/s.tbl'' \<mapsto> [''amd64'']]"

definition partSyscalls :: syscallTable where
  "partSyscalls =
     [''read'' \<mapsto> [\<lparr>fn = ''read'', arch = ''amd64'', is64bit = True\<rparr>],
      ''umount'' \<mapsto> [\<lparr>fn = ''umount'', arch = ''amd64'', is64bit = False\<rparr>],
      ''umount2'' \<mapsto> [\<lparr>fn = ''umount'', arch = ''amd64'', is64bit = True\<rparr>]]"

text \<open>A tree with two table files of the same architecture that give the syscall \<open>time\<close>
  two different 32-bit entry points.\<close>

definition tieWalk :: fileTree where
  "tieWalk p =
     (if p = [''k'', ''arch'', ''x86'']
      then [(''k/arch/x86/a.tbl'', None), (''k/arch/x86/b.tbl'', None)]
      else [])"

definition tieRead :: "string \<Rightarrow> string + string" where
  "tieRead f =
     (if f = ''k/arch/x86/a.tbl'' then Inr ''13 i386 time sys_time32''
      else if f = ''k/arch/x86/b.tbl'' then Inr ''201 x32 time sys_time''
      else Inl ''no such file'')"

definition tieTblFiles :: tblFileMap where
  "tieTblFiles = [''k/arch/x86/a.tbl'' \<mapsto> [''amd64''], ''k/arch/x86/b.tbl'' \<mapsto> [''amd64'']]"

text \<open>Thirteen candidates of one syscall name, one more than the insertion sort takes: the
  first and the fifth are of the first rank and name different symbols. \<open>longSorted\<close> is the
  sorted permutation that has the fifth in front.\<close>

definition longDescs :: "tblSyscall list" where
  "longDescs =
     \<lparr>fn = ''f0'', arch = ''amd64'', is64bit = True\<rparr> #
     map (\<lambda>a. \<lparr>fn = ''g'', arch = a, is64bit = True\<rparr>)
       [''arm64'', ''mips64le'', ''ppc64le''] @
     \<lparr>fn = ''f4'', arch = ''amd64'', is64bit = True\<rparr> #
     map (\<lambda>a. \<lparr>fn = ''g'', arch = a, is64bit = False\<rparr>)
       [''386'', ''arm'', ''arm'', ''arm'', ''arm'', ''arm'', ''arm'', ''arm'']"

definition longSorted :: "tblSyscall list" where
  "longSorted =
     \<lparr>fn = ''f4'', arch = ''amd64'', is64bit = True\<rparr> #
     \<lparr>fn = ''f0'', arch = ''amd64'', is64bit = True\<rparr> #
     map (\<lambda>a. \<lparr>fn = ''g'', arch = a, is64bit = True\<rparr>)
       [''arm64'', ''mips64le'', ''ppc64le''] @
     map (\<lambda>a. \<lparr>fn = ''g'', arch = a, is64bit = False\<rparr>)
       [''386'', ''arm'', ''arm'', ''arm'', ''arm'', ''arm'', ''arm'', ''arm'']"

text \<open>Two interface records (at the addresses 0 and 1), an extractor that files every record
  with files under \<open>net\<close> and \<open>fs\<close>, the constants of a hand-written file and of the
  synthesized file, four parsed nodes of which the type checker reports two unused, and
  collaborators that return them.\<close>

definition exIface :: interface where
  "exIface = \<lparr>Type = ''IOCTL'', Name = ''FIONBIO'', IdentifyingConst = ''FIONBIO'',
     Files = [''net/socket.c'', ''fs/ioctl.c''], Func = ''sock_ioctl'', Access = ''user'',
     Subsystems = [], ManualDescriptions = False, AutoDescriptions = True\<rparr>"

definition exBare :: interface where
  "exBare = \<lparr>Type = ''SYSCALL'', Name = ''read'', IdentifyingConst = ''__NR_read'',
     Files = [], Func = ''__do_sys_read'', Access = ''user'',
     Subsystems = [], ManualDescriptions = False, AutoDescriptions = False\<rparr>"

definition exExtract :: "string list \<Rightarrow> string list" where
  "exExtract files = (if files = [] then [] else [''net'', ''fs''])"

definition exStore :: ifaceStore where
  "exStore p = (if p = 0 then exIface else exBare)"

definition exConsts :: "(string \<times> string list) list" where
  "exConsts = [(''sys/linux/socket.txt'', [''FIONBIO'', ''AF_INET'']),
               (''sys/linux/auto.txt'', [''FIONBIO'', ''__NR_read''])]"

definition exNodes :: "node list" where
  "exNodes =
     [\<lparr>nodeFile = ''sys/linux/auto.txt'', nodeTyp = ''syscall'', nodeName = ''read''\<rparr>,
      \<lparr>nodeFile = ''sys/linux/auto.txt'', nodeTyp = ''struct'', nodeName = ''auto_unused''\<rparr>,
      \<lparr>nodeFile = ''sys/linux/socket.txt'', nodeTyp = ''struct'', nodeName = ''sockaddr''\<rparr>,
      \<lparr>nodeFile = ''sys/linux/socket.txt'', nodeTyp = ''syscall'', nodeName = ''socket''\<rparr>]"

definition exUnused :: "node list" where
  "exUnused =
     [\<lparr>nodeFile = ''sys/linux/auto.txt'', nodeTyp = ''struct'', nodeName = ''auto_unused''\<rparr>,
      \<lparr>nodeFile = ''sys/linux/socket.txt'', nodeTyp = ''struct'', nodeName = ''sockaddr''\<rparr>]"

definition exCollab :: "(unit, unit) collaborators" where
  "exCollab =
     \<lparr>clangtool_Run = Inr (),
      declextract_Run = (\<lambda>out rename. Inr (''read(fd fd)'', [0, 1], exStore)),
      ast_ParseGlob = (\<lambda>fs autoFile. Inr exNodes),
      compiler_CollectUnused = (\<lambda>desc. Inr exUnused),
      compiler_ExtractConsts = (\<lambda>desc. Inr exConsts),
      ast_Format = (\<lambda>nodes. concat (map (\<lambda>n. nodeTyp n @ '' '' @ nodeName n @ [CHR 0x0A]) nodes)),
      ast_Parse = (\<lambda>text file.
         Some [\<lparr>nodeFile = file, nodeTyp = ''syscall'', nodeName = ''read''\<rparr>]),
      subsystem_Extract = exExtract\<rparr>"

section \<open>Properties of the string functions\<close>

lemma strings_HasPrefix_iff: "strings_HasPrefix s p \<longleftrightarrow> (\<exists>rest. s = p @ rest)"
  unfolding strings_HasPrefix_def
proof
  assume "take (length p) s = p"
  then have "s = p @ drop (length p) s" by (metis append_take_drop_id)
  then show "\<exists>rest. s = p @ rest" ..
next
  assume "\<exists>rest. s = p @ rest"
  then show "take (length p) s = p" by auto
qed

lemma strings_Contains_iff: "strings_Contains s sub \<longleftrightarrow> (\<exists>pre post. s = pre @ sub @ post)"
proof (induction s)
  case Nil
  then show ?case by auto
next
  case (Cons c cs)
  show ?case
  proof
    assume "strings_Contains (c # cs) sub"
    then consider "strings_HasPrefix (c # cs) sub" | "strings_Contains cs sub" by auto
    then show "\<exists>pre post. c # cs = pre @ sub @ post"
    proof cases
      case 1
      then obtain rest where "c # cs = sub @ rest" by (auto simp: strings_HasPrefix_iff)
      then have "c # cs = [] @ sub @ rest" by simp
      then show ?thesis by blast
    next
      case 2
      then obtain pre post where "cs = pre @ sub @ post" using Cons.IH by blast
      then have "c # cs = (c # pre) @ sub @ post" by simp
      then show ?thesis by blast
    qed
  next
    assume "\<exists>pre post. c # cs = pre @ sub @ post"
    then obtain pre post where e: "c # cs = pre @ sub @ post" by blast
    show "strings_Contains (c # cs) sub"
    proof (cases pre)
      case Nil
      with e have "strings_HasPrefix (c # cs) sub" by (auto simp: strings_HasPrefix_iff)
      then show ?thesis by simp
    next
      case (Cons d pre')
      with e have "cs = pre' @ sub @ post" by simp
      then have "strings_Contains cs sub" using Cons.IH by blast
      then show ?thesis by simp
    qed
  qed
qed

text \<open>A field is never empty.\<close>

lemma fieldsFrom_nonempty: "f \<in> set (fieldsFrom k cur s) \<Longrightarrow> f \<noteq> []"
  by (induction k cur s rule: fieldsFrom.induct) (auto split: if_splits)

lemma strings_Fields_nonempty: "f \<in> set (strings_Fields s) \<Longrightarrow> f \<noteq> []"
  unfolding strings_Fields_def by (rule fieldsFrom_nonempty)

lemma strippedSymbol_eq: "strings_TrimPrefix field ''sys_'' = strippedSymbol field"
  by (simp add: strings_TrimPrefix_def strippedSymbol_def strings_HasPrefix_iff)

lemma exclusionFilter_code:
  "(strings_HasPrefix syscall ''unused'' \<or> entry = ''-'' \<or> grp = ''spu''
      \<or> syscall = ''llseek'' \<or> syscall = ''reboot'') = exclusionFilter grp syscall entry"
  by (simp add: exclusionFilter_def strings_HasPrefix_iff)

section \<open>Properties of maps of slices and of the sort\<close>

lemma lookup_appendTo:
  "lookup (appendTo m k x) k' = (if k' = k then lookup m k @ [x] else lookup m k')"
  by (simp add: lookup_def appendTo_def)

lemma dom_appendTo: "dom (appendTo m k x) = insert k (dom m)"
  by (simp add: appendTo_def)

lemma lookup_empty: "lookup Map.empty k = []"
  by (simp add: lookup_def)

lemma noEmptyEntry_dom: "noEmptyEntry m \<Longrightarrow> dom m = {k. lookup m k \<noteq> []}"
  by (auto simp: noEmptyEntry_def lookup_def split: option.splits)

lemma noEmptyEntry_empty: "noEmptyEntry Map.empty"
  by (simp add: noEmptyEntry_def)

lemma noEmptyEntry_appendTo: "noEmptyEntry m \<Longrightarrow> noEmptyEntry (appendTo m k x)"
  by (simp add: noEmptyEntry_def appendTo_def)

lemma lookup_foldl_appendTo:
  "lookup (foldl (\<lambda>r n. appendTo r (w n) n) r ks) f = lookup r f @ filter (\<lambda>n. w n = f) ks"
  by (induction ks arbitrary: r) (auto simp: lookup_appendTo)

lemma dom_foldl_appendTo:
  "dom (foldl (\<lambda>r n. appendTo r (w n) n) r ks) = dom r \<union> w ` set ks"
  by (induction ks arbitrary: r) (auto simp: dom_appendTo)

lemma rangeOrder_mset:
  "rangeOrder m ks \<Longrightarrow> rangeOrder m' ks' \<Longrightarrow> dom m = dom m' \<Longrightarrow> mset ks = mset ks'"
  unfolding rangeOrder_def by (metis set_eq_iff_mset_eq_distinct)

lemma mset_concat_map_cong:
  assumes "mset xs = mset ys" and "\<And>x. x \<in> set xs \<Longrightarrow> mset (f x) = mset (g x)"
  shows "mset (concat (map f xs)) = mset (concat (map g ys))"
proof -
  have c: "\<And>h zs. mset (concat (map h zs)) = sum_mset (image_mset (\<lambda>z. mset (h z)) (mset zs))"
    by (induct_tac zs) auto
  have "image_mset (\<lambda>z. mset (f z)) (mset xs) = image_mset (\<lambda>z. mset (g z)) (mset xs)"
    by (rule image_mset_cong) (simp add: assms(2))
  then show ?thesis by (simp add: c assms(1))
qed

lemma mset_moveLeft: "mset (moveLeft cmp ys x) = add_mset x (mset ys)"
  by (induction ys) auto

lemma mset_foldl_moveLeft: "mset (foldl (moveLeft cmp) acc xs) = mset acc + mset xs"
  by (induction xs arbitrary: acc) (auto simp: mset_moveLeft)

lemma mset_insertionSortCmpFunc: "mset (insertionSortCmpFunc cmp xs) = mset xs"
  by (simp add: insertionSortCmpFunc_def mset_foldl_moveLeft)

lemma mset_slices_SortFunc: "mset (slices_SortFunc pq cmp xs) = mset xs"
  by (simp add: slices_SortFunc_def mset_insertionSortCmpFunc sortedPermutation_def)

lemma set_slices_SortFunc: "set (slices_SortFunc pq cmp xs) = set xs"
  by (metis mset_slices_SortFunc set_mset_mset)

lemma slices_SortFunc_Nil_iff: "slices_SortFunc pq cmp xs = [] \<longleftrightarrow> xs = []"
  by (metis mset_slices_SortFunc mset_zero_iff)

lemma moveLeft_sorted:
  assumes asym: "\<And>a b. cmp a b < 0 \<Longrightarrow> \<not> cmp b a < 0"
    and ntrans: "\<And>a b c. \<not> cmp a b < 0 \<Longrightarrow> \<not> cmp b c < 0 \<Longrightarrow> \<not> cmp a c < 0"
    and srt: "sorted_wrt (\<lambda>a b. \<not> cmp a b < 0) ys"
  shows "sorted_wrt (\<lambda>a b. \<not> cmp a b < 0) (moveLeft cmp ys x)"
  using srt
proof (induction ys)
  case Nil
  then show ?case by simp
next
  case (Cons y ys)
  have set_ml: "set (moveLeft cmp ys x) = insert x (set ys)"
    by (metis mset_moveLeft set_mset_add_mset_insert set_mset_mset)
  show ?case
  proof (cases "cmp x y < 0")
    case True
    then have "\<not> cmp y x < 0" by (rule asym)
    with True Cons show ?thesis by (auto simp: set_ml)
  next
    case False
    then have "\<forall>z\<in>set ys. \<not> cmp x z < 0"
      using Cons.prems ntrans by auto
    with False Cons.prems show ?thesis by auto
  qed
qed

lemma foldl_moveLeft_sorted:
  assumes asym: "\<And>a b. cmp a b < 0 \<Longrightarrow> \<not> cmp b a < 0"
    and ntrans: "\<And>a b c. \<not> cmp a b < 0 \<Longrightarrow> \<not> cmp b c < 0 \<Longrightarrow> \<not> cmp a c < 0"
  shows "sorted_wrt (\<lambda>a b. \<not> cmp a b < 0) acc
    \<Longrightarrow> sorted_wrt (\<lambda>a b. \<not> cmp a b < 0) (foldl (moveLeft cmp) acc xs)"
proof (induction xs arbitrary: acc)
  case Nil
  then show ?case by simp
next
  case (Cons x xs)
  have "sorted_wrt (\<lambda>a b. \<not> cmp a b < 0) (moveLeft cmp acc x)"
    by (rule moveLeft_sorted [OF asym ntrans Cons.prems])
  then show ?case using Cons.IH by simp
qed

lemma insertionSortCmpFunc_sortedPermutation:
  assumes asym: "\<And>a b. cmp a b < 0 \<Longrightarrow> \<not> cmp b a < 0"
    and ntrans: "\<And>a b c. \<not> cmp a b < 0 \<Longrightarrow> \<not> cmp b c < 0 \<Longrightarrow> \<not> cmp a c < 0"
  shows "sortedPermutation cmp xs (insertionSortCmpFunc cmp xs)"
proof -
  have "sorted_wrt (\<lambda>a b. \<not> cmp a b < 0) (foldl (moveLeft cmp) [] xs)"
    by (rule foldl_moveLeft_sorted [OF asym ntrans]) simp_all
  then have "sorted_wrt (\<lambda>a b. \<not> cmp b a < 0) (insertionSortCmpFunc cmp xs)"
    by (simp add: insertionSortCmpFunc_def sorted_wrt_rev)
  then show ?thesis by (simp add: sortedPermutation_def mset_insertionSortCmpFunc)
qed

lemma slices_SortFunc_sortedPermutation:
  assumes asym: "\<And>a b. cmp a b < 0 \<Longrightarrow> \<not> cmp b a < 0"
    and ntrans: "\<And>a b c. \<not> cmp a b < 0 \<Longrightarrow> \<not> cmp b c < 0 \<Longrightarrow> \<not> cmp a c < 0"
  shows "sortedPermutation cmp xs (slices_SortFunc pq cmp xs)"
  using insertionSortCmpFunc_sortedPermutation [of cmp xs, OF asym ntrans]
  by (simp add: slices_SortFunc_def)

text \<open>Every sorted permutation of more than 12 elements is an outcome of the model, and up to
  12 elements the outcome is that of the insertion sort, whatever the parameter.\<close>

lemma slices_SortFunc_any_sortedPermutation:
  "sortedPermutation cmp xs ys \<Longrightarrow> 12 < length xs \<Longrightarrow> slices_SortFunc (\<lambda>c zs. ys) cmp xs = ys"
  by (simp add: slices_SortFunc_def)

lemma slices_SortFunc_small:
  "length xs \<le> 12 \<Longrightarrow> slices_SortFunc pq cmp xs = insertionSortCmpFunc cmp xs"
  by (simp add: slices_SortFunc_def)

lemma cmpTbl_less_iff:
  "cmpTbl t a b < 0 \<longleftrightarrow> priorityTuple t a < priorityTuple t b"
  by (auto simp: cmpTbl_def priorityTuple_def strings_Compare_def less_prod_def less_eq_prod_def)

lemma cmpTbl_not_less_iff:
  "\<not> cmpTbl t b a < 0 \<longleftrightarrow> priorityTuple t a \<le> priorityTuple t b"
  by (simp add: cmpTbl_less_iff not_less)

lemma sortedPermutation_cmpTbl_iff:
  "sortedPermutation (cmpTbl t) xs ys \<longleftrightarrow>
     mset ys = mset xs \<and> sorted (map (priorityTuple t) ys)"
  by (simp add: sortedPermutation_def cmpTbl_not_less_iff sorted_map)

lemma slices_SortFunc_cmpTbl: "sortedPermutation (cmpTbl t) xs (slices_SortFunc pq (cmpTbl t) xs)"
proof (rule slices_SortFunc_sortedPermutation)
  show "\<And>a b. cmpTbl t a b < 0 \<Longrightarrow> \<not> cmpTbl t b a < 0"
    by (simp add: cmpTbl_less_iff)
  show "\<And>a b c. \<not> cmpTbl t a b < 0 \<Longrightarrow> \<not> cmpTbl t b c < 0 \<Longrightarrow> \<not> cmpTbl t a c < 0"
    by (simp add: cmpTbl_less_iff not_less) 
qed

lemma sortedPermutation_hd_least:
  assumes "sortedPermutation (cmpTbl t) xs ys" "r \<in> set xs"
  shows "priorityTuple t (hd ys) \<le> priorityTuple t r"
proof -
  from assms have ms: "mset ys = mset xs" and srt: "sorted (map (priorityTuple t) ys)"
    by (simp_all add: sortedPermutation_cmpTbl_iff)
  from ms assms(2) have "r \<in> set ys" by (metis set_mset_mset)
  then obtain y rest where ys: "ys = y # rest" by (cases ys) auto
  with srt \<open>r \<in> set ys\<close> show ?thesis by auto
qed

text \<open>The same holds for whatever sorted permutation the library returns: the first record
  has the least priority tuple.\<close>

lemma tie_break_any_sort:
  assumes "sortedPermutation (cmpTbl targetArch) descs ys"
  shows "sorted (map (priorityTuple targetArch) ys)"
    and "\<forall>r\<in>set descs. priorityTuple targetArch (hd ys) \<le> priorityTuple targetArch r"
  using assms sortedPermutation_hd_least [OF assms]
  by (simp_all add: sortedPermutation_cmpTbl_iff)

section \<open>Properties of the resolver's loops\<close>

subsection \<open>Parsing\<close>

lemma parseTblLine_candidate:
  "parseTblLine line a s =
     (case tblCandidate line of
        None \<Rightarrow> s
      | Some (n, f, b) \<Rightarrow> appendTo s n \<lparr>fn = f, arch = a, is64bit = b\<rparr>)"
  unfolding parseTblLine_def tblCandidate_def Let_def exclusionFilter_code strippedSymbol_eq
    strings_Contains_iff
  by simp

lemma tblCandidate_Some:
  "tblCandidate line = Some (n, f, b) \<Longrightarrow>
     4 \<le> length (strings_Fields line) \<and> strings_Fields line ! 0 \<noteq> ''#'' \<and>
     strings_Fields line ! 2 = n \<and> strippedSymbol (strings_Fields line ! 3) = f \<and>
     \<not> exclusionFilter (strings_Fields line ! 1) n f"
  by (auto simp: tblCandidate_def Let_def split: if_splits)

lemma lookup_parseTblLine:
  "lookup (parseTblLine line a s) n =
     lookup s n @ (case tblCandidate line of
                            None \<Rightarrow> []
                          | Some (n', f, b) \<Rightarrow>
                              if n' = n then [\<lparr>fn = f, arch = a, is64bit = b\<rparr>] else [])"
  by (auto simp: parseTblLine_candidate lookup_appendTo split: option.splits)

lemma lookup_fold_parseTblLine:
  "lookup (fold (\<lambda>line s. parseTblLine line a s) ls s) n =
     lookup s n @ concat (map (\<lambda>line. case tblCandidate line of
                            None \<Rightarrow> []
                          | Some (n', f, b) \<Rightarrow>
                              if n' = n then [\<lparr>fn = f, arch = a, is64bit = b\<rparr>] else []) ls)"
  by (induction ls arbitrary: s) (simp_all add: lookup_parseTblLine)

lemma lookup_parseTblFile:
  "lookup (parseTblFile data a s) n = lookup s n @ fileRecords data a n"
  by (simp add: parseTblFile_def fileRecords_def lookup_fold_parseTblLine)

lemma noEmptyEntry_parseTblLine: "noEmptyEntry s \<Longrightarrow> noEmptyEntry (parseTblLine line a s)"
  by (auto simp: parseTblLine_candidate noEmptyEntry_appendTo split: option.splits)

lemma noEmptyEntry_fold_parseTblLine:
  "noEmptyEntry s \<Longrightarrow> noEmptyEntry (fold (\<lambda>line s. parseTblLine line a s) ls s)"
  by (induction ls arbitrary: s) (auto simp: noEmptyEntry_parseTblLine)

lemma noEmptyEntry_parseTblFile: "noEmptyEntry s \<Longrightarrow> noEmptyEntry (parseTblFile data a s)"
  by (simp add: parseTblFile_def noEmptyEntry_fold_parseTblLine)

lemma fileRecords_mem:
  "r \<in> set (fileRecords data a n) \<Longrightarrow>
     arch r = a \<and> (\<exists>line\<in>set (scanLines data). tblCandidate line = Some (n, fn r, is64bit r))"
  by (auto simp: fileRecords_def split: option.splits if_splits)

lemma fileRecords_nonempty_iff:
  "fileRecords data a n \<noteq> [] \<longleftrightarrow>
     (\<exists>line\<in>set (scanLines data). \<exists>f b. tblCandidate line = Some (n, f, b))"
proof
  assume "fileRecords data a n \<noteq> []"
  then obtain r where "r \<in> set (fileRecords data a n)" by (cases "fileRecords data a n") auto
  then show "\<exists>line\<in>set (scanLines data). \<exists>f b. tblCandidate line = Some (n, f, b)"
    by (blast dest: fileRecords_mem)
next
  assume "\<exists>line\<in>set (scanLines data). \<exists>f b. tblCandidate line = Some (n, f, b)"
  then obtain line f b where "line \<in> set (scanLines data)" "tblCandidate line = Some (n, f, b)"
    by blast
  then have "\<lparr>fn = f, arch = a, is64bit = b\<rparr> \<in> set (fileRecords data a n)"
    by (force simp: fileRecords_def)
  then show "fileRecords data a n \<noteq> []" by auto
qed

lemma tableRecords_mem:
  "r \<in> set (tableRecords rd tf n file) \<Longrightarrow>
     arch r \<in> set (lookup tf file) \<and>
     (\<exists>line\<in>set (scanLines (contents rd file)). tblCandidate line = Some (n, fn r, is64bit r))"
  by (auto simp: tableRecords_def dest: fileRecords_mem)

lemma tableRecords_nonempty_iff:
  "tableRecords rd tf n fl \<noteq> [] \<longleftrightarrow>
     lookup tf fl \<noteq> [] \<and>
     (\<exists>line\<in>set (scanLines (contents rd fl)). \<exists>f b. tblCandidate line = Some (n, f, b))"
proof -
  have "tableRecords rd tf n fl \<noteq> [] \<longleftrightarrow>
      (\<exists>a\<in>set (lookup tf fl). fileRecords (contents rd fl) a n \<noteq> [])"
    by (simp add: tableRecords_def)
  also have "\<dots> \<longleftrightarrow> (\<exists>a\<in>set (lookup tf fl).
      \<exists>line\<in>set (scanLines (contents rd fl)). \<exists>f b. tblCandidate line = Some (n, f, b))"
    by (simp only: fileRecords_nonempty_iff)
  also have "\<dots> \<longleftrightarrow> lookup tf fl \<noteq> [] \<and>
     (\<exists>line\<in>set (scanLines (contents rd fl)). \<exists>f b. tblCandidate line = Some (n, f, b))"
    by (cases "lookup tf fl") auto
  finally show ?thesis .
qed

lemma tableRecords_perm:
  "mset (lookup tf1 fl) = mset (lookup tf2 fl) \<Longrightarrow>
     mset (tableRecords rd tf1 n fl) = mset (tableRecords rd tf2 n fl)"
  unfolding tableRecords_def by (rule mset_concat_map_cong) simp_all

lemma parseArches_Inr:
  "parseArches rd file as s = Inr s' \<Longrightarrow>
     lookup s' n = lookup s n @ concat (map (\<lambda>a. fileRecords (contents rd file) a n) as)
     \<and> (noEmptyEntry s \<longrightarrow> noEmptyEntry s')"
proof (induction as arbitrary: s)
  case Nil
  then show ?case by simp
next
  case (Cons a as)
  then obtain data where d: "rd file = Inr data"
    by (cases "rd file") auto
  with Cons.prems have "parseArches rd file as (parseTblFile data a s) = Inr s'" by simp
  from Cons.IH [OF this] d show ?case
    by (simp add: lookup_parseTblFile contents_def noEmptyEntry_parseTblFile)
qed

lemma parseArches_ok_iff:
  "(\<exists>s'. parseArches rd file as s = Inr s') \<longleftrightarrow> (as = [] \<or> (\<exists>data. rd file = Inr data))"
proof (induction as arbitrary: s)
  case Nil
  then show ?case by simp
next
  case (Cons a as)
  show ?case
  proof (cases "rd file")
    case (Inl e)
    then show ?thesis by simp
  next
    case (Inr data)
    then show ?thesis using Cons.IH [of "parseTblFile data a s"] by auto
  qed
qed

lemma parseArches_error:
  "parseArches rd file as s = Inl e \<Longrightarrow> \<exists>msg. e = OsError msg"
  by (induction as arbitrary: s) (auto split: sum.splits)

lemma parseFiles_Inr:
  "parseFiles rd tf fo s = Inr s' \<Longrightarrow>
     lookup s' n = lookup s n @ concat (map (tableRecords rd tf n) fo)
     \<and> (noEmptyEntry s \<longrightarrow> noEmptyEntry s')"
proof (induction fo arbitrary: s)
  case Nil
  then show ?case by simp
next
  case (Cons fl fo)
  then obtain s1 where s1: "parseArches rd fl (lookup tf fl) s = Inr s1"
    by (cases "parseArches rd fl (lookup tf fl) s") auto
  with Cons.prems have "parseFiles rd tf fo s1 = Inr s'" by simp
  from Cons.IH [OF this] parseArches_Inr [OF s1, of n] show ?case
    by (simp add: tableRecords_def)
qed

lemma parseFiles_error:
  "parseFiles rd tf fo s = Inl e \<Longrightarrow> \<exists>msg. e = OsError msg"
proof (induction fo arbitrary: s)
  case Nil
  then show ?case by simp
next
  case (Cons fl fo)
  then show ?case
    by (cases "parseArches rd fl (lookup tf fl) s") (auto dest: parseArches_error)
qed

lemma parseFiles_ok_iff:
  "(\<exists>s'. parseFiles rd tf fo s = Inr s') \<longleftrightarrow>
     (\<forall>file\<in>set fo. lookup tf file = [] \<or> (\<exists>data. rd file = Inr data))"
proof (induction fo arbitrary: s)
  case Nil
  then show ?case by simp
next
  case (Cons fl fo)
  show ?case
  proof (cases "parseArches rd fl (lookup tf fl) s")
    case (Inl e)
    then have "\<not> (\<exists>s'. parseArches rd fl (lookup tf fl) s = Inr s')" by simp
    then have "\<not> (lookup tf fl = [] \<or> (\<exists>data. rd fl = Inr data))"
      by (simp add: parseArches_ok_iff)
    with Inl show ?thesis by auto
  next
    case (Inr s1)
    then have "\<exists>s'. parseArches rd fl (lookup tf fl) s = Inr s'" by simp
    then have "lookup tf fl = [] \<or> (\<exists>data. rd fl = Inr data)"
      by (simp add: parseArches_ok_iff)
    with Inr Cons.IH [of s1] show ?thesis by simp
  qed
qed

lemma parseFiles_perm:
  assumes "parseFiles rd tf1 fo1 Map.empty = Inr s1" "parseFiles rd tf2 fo2 Map.empty = Inr s2"
    and "mset fo1 = mset fo2" and "\<And>fl. mset (lookup tf1 fl) = mset (lookup tf2 fl)"
  shows "mset (lookup s1 n) = mset (lookup s2 n)" and "dom s1 = dom s2"
proof -
  have l1: "lookup s1 k = concat (map (tableRecords rd tf1 k) fo1)" for k
    using parseFiles_Inr [OF assms(1), of k] by (simp add: lookup_empty)
  have l2: "lookup s2 k = concat (map (tableRecords rd tf2 k) fo2)" for k
    using parseFiles_Inr [OF assms(2), of k] by (simp add: lookup_empty)
  have t: "mset (tableRecords rd tf1 k fl) = mset (tableRecords rd tf2 k fl)" for k fl
    using assms(4) [of fl] by (rule tableRecords_perm)
  have m: "mset (lookup s1 k) = mset (lookup s2 k)" for k
    unfolding l1 l2 by (rule mset_concat_map_cong [OF assms(3)]) (rule t)
  show "mset (lookup s1 n) = mset (lookup s2 n)" by (rule m)
  have "noEmptyEntry s1"
    using parseFiles_Inr [OF assms(1), of n] by (simp add: noEmptyEntry_empty)
  then have d1: "dom s1 = {k. lookup s1 k \<noteq> []}" by (rule noEmptyEntry_dom)
  have "noEmptyEntry s2"
    using parseFiles_Inr [OF assms(2), of n] by (simp add: noEmptyEntry_empty)
  then have d2: "dom s2 = {k. lookup s2 k \<noteq> []}" by (rule noEmptyEntry_dom)
  have "(lookup s1 k = []) = (lookup s2 k = [])" for k
    using m [of k] by (metis mset_zero_iff)
  with d1 d2 show "dom s1 = dom s2" by simp
qed

subsection \<open>Discovery\<close>

lemma walkFn_Inr:
  "walkFn vm es files = Inr files' \<Longrightarrow>
     lookup files' f = lookup files f @
        map (\<lambda>_. vm) (filter (\<lambda>(p, e). p = f \<and> strings_HasSuffix p ''.tbl'') es)
     \<and> (noEmptyEntry files \<longrightarrow> noEmptyEntry files')"
proof (induction es arbitrary: files)
  case Nil
  then show ?case by simp
next
  case (Cons pe es)
  obtain p e where pe: "pe = (p, e)" by (cases pe)
  with Cons.prems have e: "e = None" by (cases e) auto
  show ?case
  proof (cases "strings_HasSuffix p ''.tbl''")
    case True
    with Cons.prems pe e have "walkFn vm es (appendTo files p vm) = Inr files'" by simp
    from Cons.IH [OF this] True pe show ?thesis
      by (auto simp: lookup_appendTo noEmptyEntry_appendTo)
  next
    case False
    with Cons.prems pe e have "walkFn vm es files = Inr files'" by simp
    from Cons.IH [OF this] False pe show ?thesis by auto
  qed
qed

lemma walkFn_error: "walkFn vm es files = Inl e \<Longrightarrow> \<exists>msg. e = OsError msg"
proof (induction es arbitrary: files)
  case Nil
  then show ?case by simp
next
  case (Cons pe es)
  obtain p err where pe: "pe = (p, err)" by (cases pe)
  show ?case
  proof (cases err)
    case None
    with Cons pe show ?thesis by (auto simp: Let_def split: if_splits)
  next
    case (Some msg)
    with Cons.prems pe show ?thesis by auto
  qed
qed

lemma findArches_Inr:
  "findArches walk sd ts files = Inr files' \<Longrightarrow>
     lookup files' f = lookup files f @ concat (map (archHits walk sd f) ts)
     \<and> (noEmptyEntry files \<longrightarrow> noEmptyEntry files')"
proof (induction ts arbitrary: files)
  case Nil
  then show ?case by simp
next
  case (Cons a ts)
  then obtain f1 where f1: "walkFn (VMArch a) (walk [sd, ''arch'', KernelHeaderArch a]) files = Inr f1"
    by (cases "walkFn (VMArch a) (walk [sd, ''arch'', KernelHeaderArch a]) files") auto
  with Cons.prems have "findArches walk sd ts f1 = Inr files'" by simp
  from Cons.IH [OF this] walkFn_Inr [OF f1, of f] show ?case
    by (simp add: archHits_def)
qed

lemma findArches_error: "findArches walk sd ts files = Inl e \<Longrightarrow> \<exists>msg. e = OsError msg"
proof (induction ts arbitrary: files)
  case Nil
  then show ?case by simp
next
  case (Cons a ts)
  then show ?case
    by (cases "walkFn (VMArch a) (walk [sd, ''arch'', KernelHeaderArch a]) files")
      (auto dest: walkFn_error)
qed

lemma findTblFiles_Inr:
  assumes "findTblFiles walk ts sd = Inr tf"
  shows "lookup tf f = concat (map (archHits walk sd f) ts)" and "noEmptyEntry tf"
  using findArches_Inr [OF assms [unfolded findTblFiles_def], of f]
  by (simp_all add: lookup_empty noEmptyEntry_empty)

lemma findTblFiles_dom:
  assumes "findTblFiles walk ts sd = Inr tf"
  shows "dom tf = {f. strings_HasSuffix f ''.tbl'' \<and>
                    (\<exists>a\<in>set ts. f \<in> fst ` set (walk [sd, ''arch'', KernelHeaderArch a]))}"
proof -
  have "dom tf = {f. lookup tf f \<noteq> []}"
    using findTblFiles_Inr(2) [OF assms] by (rule noEmptyEntry_dom)
  also have "\<dots> = {f. \<exists>a\<in>set ts. archHits walk sd f a \<noteq> []}"
    by (simp add: findTblFiles_Inr(1) [OF assms])
  also have "\<dots> = {f. strings_HasSuffix f ''.tbl'' \<and>
                    (\<exists>a\<in>set ts. f \<in> fst ` set (walk [sd, ''arch'', KernelHeaderArch a]))}"
    by (force simp: archHits_def filter_empty_conv)
  finally show ?thesis .
qed

lemma walkFn_ok_iff:
  "(\<exists>files'. walkFn vm es files = Inr files') \<longleftrightarrow> (\<forall>pe\<in>set es. snd pe = None)"
proof (induction es arbitrary: files)
  case Nil
  then show ?case by simp
next
  case (Cons pe es)
  obtain p err where pe: "pe = (p, err)" by (cases pe)
  show ?case
  proof (cases err)
    case None
    with pe Cons.IH show ?thesis by simp
  next
    case (Some e)
    with pe show ?thesis by simp
  qed
qed

lemma findArches_ok_iff:
  "(\<exists>files'. findArches walk sd ts files = Inr files') \<longleftrightarrow> walksComplete walk ts sd"
proof (induction ts arbitrary: files)
  case Nil
  then show ?case by (simp add: walksComplete_def)
next
  case (Cons a ts)
  show ?case
  proof (cases "walkFn (VMArch a) (walk [sd, ''arch'', KernelHeaderArch a]) files")
    case (Inl e)
    then have "\<not> (\<forall>pe\<in>set (walk [sd, ''arch'', KernelHeaderArch a]). snd pe = None)"
      using walkFn_ok_iff [of "VMArch a" "walk [sd, ''arch'', KernelHeaderArch a]" files] by simp
    with Inl show ?thesis by (auto simp: walksComplete_def)
  next
    case (Inr f1)
    then have "\<forall>pe\<in>set (walk [sd, ''arch'', KernelHeaderArch a]). snd pe = None"
      using walkFn_ok_iff [of "VMArch a" "walk [sd, ''arch'', KernelHeaderArch a]" files] by simp
    with Inr Cons.IH [of f1] show ?thesis by (auto simp: walksComplete_def)
  qed
qed

lemma findTblFiles_ok_iff:
  "(\<exists>tf. findTblFiles walk ts sd = Inr tf) \<longleftrightarrow> walksComplete walk ts sd"
  unfolding findTblFiles_def by (rule findArches_ok_iff)

lemma findTblFiles_perm:
  assumes "findTblFiles walk ts1 sd = Inr tf1" "findTblFiles walk ts2 sd = Inr tf2"
    and "mset ts1 = mset ts2"
  shows "mset (lookup tf1 f) = mset (lookup tf2 f)" and "dom tf1 = dom tf2"
proof -
  show "mset (lookup tf1 f) = mset (lookup tf2 f)"
    unfolding findTblFiles_Inr(1) [OF assms(1)] findTblFiles_Inr(1) [OF assms(2)]
    using assms(3) by (rule mset_concat_map_cong) simp
  from assms(3) have "set ts1 = set ts2" by (rule mset_eq_setD)
  then show "dom tf1 = dom tf2"
    by (simp add: findTblFiles_dom [OF assms(1)] findTblFiles_dom [OF assms(2)])
qed

subsection \<open>The rename loop\<close>

lemma renameLoop_Inr:
  "\<forall>n\<in>set ks. lookup s n \<noteq> [] \<Longrightarrow>
     renameLoop pq t s ks r = Inr (foldl (\<lambda>r n. appendTo r (winner pq t s n) n) r ks)"
proof (induction ks arbitrary: r)
  case Nil
  then show ?case by simp
next
  case (Cons k ks)
  then have "slices_SortFunc pq (cmpTbl t) (lookup s k) \<noteq> []"
    by (simp add: slices_SortFunc_Nil_iff)
  then obtain d ds where d: "slices_SortFunc pq (cmpTbl t) (lookup s k) = d # ds"
    by (cases "slices_SortFunc pq (cmpTbl t) (lookup s k)") auto
  then have "winner pq t s k = fn d" by (simp add: winner_def)
  with d Cons show ?case by simp
qed

lemma renameLoop_Inl:
  "\<exists>n\<in>set ks. lookup s n = [] \<Longrightarrow> renameLoop pq t s ks r = Inl IndexOutOfRange"
proof (induction ks arbitrary: r)
  case Nil
  then show ?case by simp
next
  case (Cons k ks)
  show ?case
  proof (cases "slices_SortFunc pq (cmpTbl t) (lookup s k)")
    case Nil
    then show ?thesis by simp
  next
    case (Cons d ds)
    then have "lookup s k \<noteq> []" by (metis list.distinct(1) slices_SortFunc_Nil_iff)
    with Cons.prems have "\<exists>n\<in>set ks. lookup s n = []" by auto
    with Cons Cons.IH show ?thesis by simp
  qed
qed

lemma winner_mem:
  "lookup s n \<noteq> [] \<Longrightarrow> \<exists>r\<in>set (lookup s n). fn r = winner pq t s n"
proof -
  assume "lookup s n \<noteq> []"
  then have "slices_SortFunc pq (cmpTbl t) (lookup s n) \<noteq> []"
    by (simp add: slices_SortFunc_Nil_iff)
  then have "hd (slices_SortFunc pq (cmpTbl t) (lookup s n)) \<in> set (slices_SortFunc pq (cmpTbl t) (lookup s n))"
    by (rule hd_in_set)
  then have "hd (slices_SortFunc pq (cmpTbl t) (lookup s n)) \<in> set (lookup s n)"
    by (simp add: set_slices_SortFunc)
  then show ?thesis by (auto simp: winner_def)
qed

lemma winner_least:
  assumes "lookup s n \<noteq> []"
  shows "\<exists>r\<in>set (lookup s n). fn r = winner pq t s n \<and>
           (\<forall>x\<in>set (lookup s n). priorityTuple t r \<le> priorityTuple t x)"
proof -
  let ?ys = "slices_SortFunc pq (cmpTbl t) (lookup s n)"
  have sp: "sortedPermutation (cmpTbl t) (lookup s n) ?ys" by (rule slices_SortFunc_cmpTbl)
  from assms have "?ys \<noteq> []" by (simp add: slices_SortFunc_Nil_iff)
  then have "hd ?ys \<in> set ?ys" by (rule hd_in_set)
  then have m: "hd ?ys \<in> set (lookup s n)" by (simp add: set_slices_SortFunc)
  have "\<forall>x\<in>set (lookup s n). priorityTuple t (hd ?ys) \<le> priorityTuple t x"
    using sortedPermutation_hd_least [OF sp] by blast
  with m show ?thesis by (auto simp: winner_def)
qed

lemma winner_agree:
  assumes "firstRankAgree t s1" and "set (lookup s2 n) = set (lookup s1 n)"
    and "lookup s1 n \<noteq> []"
  shows "winner pq t s1 n = winner pq t s2 n"
proof -
  from assms(2,3) have ne2: "lookup s2 n \<noteq> []" by auto
  from winner_least [OF assms(3), of pq t] obtain r1 where
    r1: "r1 \<in> set (lookup s1 n)" "fn r1 = winner pq t s1 n"
      "\<forall>x\<in>set (lookup s1 n). priorityTuple t r1 \<le> priorityTuple t x"
    by blast
  from winner_least [OF ne2, of pq t] assms(2) obtain r2 where
    r2: "r2 \<in> set (lookup s1 n)" "fn r2 = winner pq t s2 n"
      "\<forall>x\<in>set (lookup s1 n). priorityTuple t r2 \<le> priorityTuple t x"
    by auto
  from assms(1) r1(1,3) r2(1,3) have "fn r1 = fn r2"
    unfolding firstRankAgree_def by blast
  with r1(2) r2(2) show ?thesis by simp
qed

lemma renameLoop_result:
  assumes "renameLoop pq t s so Map.empty = Inr rename"
  shows "(\<forall>n\<in>set so. lookup s n \<noteq> [])"
    and "lookup rename en = filter (\<lambda>n. winner pq t s n = en) so"
    and "dom rename = winner pq t s ` set so"
proof -
  show ne: "\<forall>n\<in>set so. lookup s n \<noteq> []"
  proof (rule ccontr)
    assume "\<not> (\<forall>n\<in>set so. lookup s n \<noteq> [])"
    then have "\<exists>n\<in>set so. lookup s n = []" by simp
    then have "renameLoop pq t s so Map.empty = Inl IndexOutOfRange" by (rule renameLoop_Inl)
    with assms show False by simp
  qed
  then have "renameLoop pq t s so Map.empty
      = Inr (foldl (\<lambda>r n. appendTo r (winner pq t s n) n) Map.empty so)"
    by (rule renameLoop_Inr)
  with assms have r: "rename = foldl (\<lambda>r n. appendTo r (winner pq t s n) n) Map.empty so" by simp
  show "lookup rename en = filter (\<lambda>n. winner pq t s n = en) so"
    by (simp add: r lookup_foldl_appendTo lookup_empty)
  show "dom rename = winner pq t s ` set so"
    by (simp add: r dom_foldl_appendTo)
qed

lemma buildSyscallRenameMap_Inr:
  assumes "buildSyscallRenameMap pq t ts walk rd fo so sd = Inr rename"
  shows "\<exists>tf s. findTblFiles walk ts sd = Inr tf \<and> dom tf \<noteq> {} \<and>
           parseFiles rd tf fo Map.empty = Inr s \<and> renameLoop pq t s so Map.empty = Inr rename"
  using assms
  by (auto simp: buildSyscallRenameMap_def split: sum.splits if_splits)

lemma buildSyscallRenameMap_error:
  assumes "buildSyscallRenameMap pq t ts walk rd fo so sd = Inl (NoTblFiles sd')"
  shows "\<exists>tf. findTblFiles walk ts sd = Inr tf \<and> dom tf = {}"
proof (cases "findTblFiles walk ts sd")
  case (Inl e)
  then obtain msg where "e = OsError msg"
    unfolding findTblFiles_def by (auto dest: findArches_error)
  with Inl assms show ?thesis by (simp add: buildSyscallRenameMap_def)
next
  case (Inr tf)
  show ?thesis
  proof (cases "dom tf = {}")
    case True
    with Inr show ?thesis by simp
  next
    case False
    show ?thesis
    proof (cases "parseFiles rd tf fo Map.empty")
      case (Inl e)
      then obtain msg where "e = OsError msg" by (auto dest: parseFiles_error)
      with Inl Inr False assms show ?thesis by (simp add: buildSyscallRenameMap_def)
    next
      case s: (Inr s)
      have "renameLoop pq t s so Map.empty \<noteq> Inl (NoTblFiles sd')"
      proof (cases "\<forall>n\<in>set so. lookup s n \<noteq> []")
        case True
        then show ?thesis by (simp add: renameLoop_Inr)
      next
        case False
        then have "\<exists>n\<in>set so. lookup s n = []" by simp
        then show ?thesis by (simp add: renameLoop_Inl)
      qed
      with s Inr False assms show ?thesis by (simp add: buildSyscallRenameMap_def)
    qed
  qed
qed

lemma identity_map_origin:
  assumes "buildSyscallRenameMap pq t ts walk rd fo so sd = Inr rename"
    and "name \<in> set (lookup rename en)"
  shows "\<exists>tf fl line b. findTblFiles walk ts sd = Inr tf \<and> fl \<in> set fo \<and> lookup tf fl \<noteq> [] \<and>
           line \<in> set (scanLines (contents rd fl)) \<and> tblCandidate line = Some (name, en, b)"
proof -
  from assms(1) obtain tf s where tf: "findTblFiles walk ts sd = Inr tf"
    and s: "parseFiles rd tf fo Map.empty = Inr s"
    and r: "renameLoop pq t s so Map.empty = Inr rename"
    using buildSyscallRenameMap_Inr by blast
  from assms(2) renameLoop_result(2) [OF r, of en]
  have n: "name \<in> set so" and w: "winner pq t s name = en" by auto
  from n renameLoop_result(1) [OF r] have "lookup s name \<noteq> []" by blast
  then obtain rec where rec: "rec \<in> set (lookup s name)" and f: "fn rec = en"
    using winner_mem [of s name pq t] w by auto
  from parseFiles_Inr [OF s, of name] rec
  obtain fl where fl: "fl \<in> set fo" and m: "rec \<in> set (tableRecords rd tf name fl)"
    by (auto simp: lookup_empty)
  from tableRecords_mem [OF m] f obtain line where
    "arch rec \<in> set (lookup tf fl)" "line \<in> set (scanLines (contents rd fl))"
    "tblCandidate line = Some (name, en, is64bit rec)"
    by auto
  with tf fl show ?thesis by (metis empty_iff list.set(1))
qed

text \<open>
  Two runs of the resolver on the same kernel tree and the same target architecture, each
  with its own enumeration order of the architectures, of the table files and of the syscall
  names, both finding table files and reading them. Where for every syscall name the
  candidate records of the first rank name the same entry symbol, both runs return a map, the
  two maps have the same symbols, and each symbol has the same syscall names in both.
\<close>

lemma same_names_when_first_rank_agrees:
  assumes "findTblFiles walk targetsList1 sourceDir = Inr tblFiles1"
    and "rangeOrder tblFiles1 fileOrder1"
    and "parseFiles readFile tblFiles1 fileOrder1 Map.empty = Inr syscalls1"
    and "rangeOrder syscalls1 syscallOrder1"
    and "findTblFiles walk targetsList2 sourceDir = Inr tblFiles2"
    and "rangeOrder tblFiles2 fileOrder2"
    and "parseFiles readFile tblFiles2 fileOrder2 Map.empty = Inr syscalls2"
    and "rangeOrder syscalls2 syscallOrder2"
    and "mset targetsList1 = mset targetsList2"
    and "dom tblFiles1 \<noteq> {}"
    and "firstRankAgree targetArch syscalls1"
  shows "\<exists>rename1 rename2.
      buildSyscallRenameMap pdqsort targetArch targetsList1 walk readFile fileOrder1 syscallOrder1
        sourceDir = Inr rename1 \<and>
      buildSyscallRenameMap pdqsort targetArch targetsList2 walk readFile fileOrder2 syscallOrder2
        sourceDir = Inr rename2 \<and>
      dom rename1 = dom rename2 \<and>
      (\<forall>en. mset (lookup rename1 en) = mset (lookup rename2 en))"
proof -
  note tf = findTblFiles_perm [OF assms(1) assms(5) assms(9)]
  have fo: "mset fileOrder1 = mset fileOrder2"
    using assms(2) assms(6) tf(2) by (rule rangeOrder_mset)
  note sc = parseFiles_perm [OF assms(3) assms(7) fo tf(1)]
  have so: "mset syscallOrder1 = mset syscallOrder2"
    using assms(4) assms(8) sc(2) by (rule rangeOrder_mset)
  have ne1: "noEmptyEntry syscalls1"
    using parseFiles_Inr [OF assms(3), of sourceDir] by (simp add: noEmptyEntry_empty)
  have ne2: "noEmptyEntry syscalls2"
    using parseFiles_Inr [OF assms(7), of sourceDir] by (simp add: noEmptyEntry_empty)
  have in1: "\<forall>n\<in>set syscallOrder1. lookup syscalls1 n \<noteq> []"
    using assms(4) noEmptyEntry_dom [OF ne1] by (simp add: rangeOrder_def)
  have in2: "\<forall>n\<in>set syscallOrder2. lookup syscalls2 n \<noteq> []"
    using assms(8) noEmptyEntry_dom [OF ne2] by (simp add: rangeOrder_def)
  define rename1 where
    "rename1 = foldl (\<lambda>r n. appendTo r (winner pdqsort targetArch syscalls1 n) n) Map.empty syscallOrder1"
  define rename2 where
    "rename2 = foldl (\<lambda>r n. appendTo r (winner pdqsort targetArch syscalls2 n) n) Map.empty syscallOrder2"
  have b1: "buildSyscallRenameMap pdqsort targetArch targetsList1 walk readFile fileOrder1 syscallOrder1
        sourceDir = Inr rename1"
    using assms(1) assms(10) assms(3) renameLoop_Inr [OF in1, of pdqsort targetArch Map.empty]
    by (simp add: buildSyscallRenameMap_def rename1_def)
  have "dom tblFiles2 \<noteq> {}" using assms(10) tf(2) by simp
  then have b2: "buildSyscallRenameMap pdqsort targetArch targetsList2 walk readFile fileOrder2
        syscallOrder2 sourceDir = Inr rename2"
    using assms(5) assms(7) renameLoop_Inr [OF in2, of pdqsort targetArch Map.empty]
    by (simp add: buildSyscallRenameMap_def rename2_def)
  have w: "winner pdqsort targetArch syscalls1 n = winner pdqsort targetArch syscalls2 n"
    if "n \<in> set syscallOrder1" for n
  proof -
    from that in1 have "lookup syscalls1 n \<noteq> []" by blast
    moreover have "set (lookup syscalls2 n) = set (lookup syscalls1 n)"
      using sc(1) [of n] by (metis set_mset_mset)
    ultimately show ?thesis using assms(11) by (intro winner_agree)
  qed
  have l1: "lookup rename1 en = filter (\<lambda>n. winner pdqsort targetArch syscalls1 n = en) syscallOrder1"
    for en
    by (simp add: rename1_def lookup_foldl_appendTo lookup_empty)
  have l2: "lookup rename2 en = filter (\<lambda>n. winner pdqsort targetArch syscalls2 n = en) syscallOrder2"
    for en
    by (simp add: rename2_def lookup_foldl_appendTo lookup_empty)
  have "filter (\<lambda>n. winner pdqsort targetArch syscalls1 n = en) syscallOrder1
      = filter (\<lambda>n. winner pdqsort targetArch syscalls2 n = en) syscallOrder1" for en
    by (rule filter_cong) (simp_all add: w)
  then have m: "mset (lookup rename1 en) = mset (lookup rename2 en)" for en
    by (simp add: l1 l2 so [symmetric] del: mset_filter) (simp add: so)
  have "set syscallOrder1 = set syscallOrder2" using so by (rule mset_eq_setD)
  then have d: "dom rename1 = dom rename2"
    using w by (auto simp: rename1_def rename2_def dom_foldl_appendTo)
  from b1 b2 d m show ?thesis by blast
qed

subsection \<open>The example tree\<close>

lemma ex_findTblFiles: "findTblFiles exWalk exTargets ''k'' = Inr exTblFiles"
  by (simp add: findTblFiles_def exWalk_def exTargets_def exTblFiles_def appendTo_def lookup_def
      strings_HasSuffix_def)

lemma ex_parseFiles:
  "parseFiles exRead exTblFiles [''k/arch/x86/s.tbl'', ''k/arch/arm64/s.tbl''] Map.empty
     = Inr exSyscalls"
  by (simp add: exRead_def exTblFiles_def exSyscalls_def lookup_def parseTblFile_def
      scanLines_def dropCR_def parseTblLine_def Let_def strings_Fields_def asciiSpace_def spaceRune2_def
      spaceRune3_def
      strings_TrimPrefix_def strings_HasPrefix_def appendTo_def)

lemma ex_rangeOrder: "rangeOrder exSyscalls [''umount2'', ''read'', ''umount'']"
  by (auto simp: rangeOrder_def exSyscalls_def)

lemma ex_build:
  "buildSyscallRenameMap pq ''amd64'' exTargets exWalk exRead
       [''k/arch/x86/s.tbl'', ''k/arch/arm64/s.tbl''] [''umount2'', ''read'', ''umount''] ''k''
     = Inr [''read'' \<mapsto> [''read''], ''umount'' \<mapsto> [''umount2'', ''umount'']]"
proof -
  have "dom exTblFiles \<noteq> {}" by (simp add: exTblFiles_def)
  then show ?thesis
    unfolding buildSyscallRenameMap_def
    by (simp only: ex_findTblFiles ex_parseFiles sum.case if_False)
      (simp add: exSyscalls_def lookup_def slices_SortFunc_def insertionSortCmpFunc_def cmpTbl_def
        strings_Compare_def appendTo_def)
qed

lemma ex_build_other_order:
  "buildSyscallRenameMap pq ''amd64'' exTargets exWalk exRead
       [''k/arch/x86/s.tbl'', ''k/arch/arm64/s.tbl''] [''umount'', ''umount2'', ''read''] ''k''
     = Inr [''umount'' \<mapsto> [''umount'', ''umount2''], ''read'' \<mapsto> [''read'']]"
proof -
  have "dom exTblFiles \<noteq> {}" by (simp add: exTblFiles_def)
  then show ?thesis
    unfolding buildSyscallRenameMap_def
    by (simp only: ex_findTblFiles ex_parseFiles sum.case if_False)
      (simp add: exSyscalls_def lookup_def slices_SortFunc_def insertionSortCmpFunc_def cmpTbl_def
        strings_Compare_def appendTo_def)
qed

lemma ex_findTblFiles_rev:
  "findTblFiles exWalk [\<lparr>KernelHeaderArch = ''arm64'', VMArch = ''arm64''\<rparr>,
        \<lparr>KernelHeaderArch = ''x86'', VMArch = ''amd64''\<rparr>] ''k'' = Inr exTblFilesRev"
  by (simp add: findTblFiles_def exWalk_def exTblFilesRev_def appendTo_def lookup_def
      strings_HasSuffix_def)

lemma ex_parseFiles_rev:
  "parseFiles exRead exTblFilesRev [''k/arch/arm64/s.tbl'', ''k/arch/x86/s.tbl''] Map.empty
     = Inr exSyscallsRev"
  by (simp add: exRead_def exTblFilesRev_def exSyscallsRev_def lookup_def parseTblFile_def
      scanLines_def dropCR_def parseTblLine_def Let_def strings_Fields_def asciiSpace_def spaceRune2_def
      spaceRune3_def
      strings_TrimPrefix_def strings_HasPrefix_def appendTo_def)

lemma ex_build_rev:
  "buildSyscallRenameMap pq ''amd64'' [\<lparr>KernelHeaderArch = ''arm64'', VMArch = ''arm64''\<rparr>,
        \<lparr>KernelHeaderArch = ''x86'', VMArch = ''amd64''\<rparr>] exWalk exRead
       [''k/arch/arm64/s.tbl'', ''k/arch/x86/s.tbl''] [''umount'', ''umount2'', ''read''] ''k''
     = Inr [''umount'' \<mapsto> [''umount'', ''umount2''], ''read'' \<mapsto> [''read'']]"
proof -
  have "dom exTblFilesRev \<noteq> {}" by (simp add: exTblFilesRev_def)
  then show ?thesis
    unfolding buildSyscallRenameMap_def
    by (simp only: ex_findTblFiles_rev ex_parseFiles_rev sum.case if_False)
      (simp add: exSyscallsRev_def lookup_def slices_SortFunc_def insertionSortCmpFunc_def cmpTbl_def
        strings_Compare_def appendTo_def)
qed

lemma ex_firstRankAgree: "firstRankAgree ''amd64'' exSyscalls"
  unfolding firstRankAgree_def
  by (auto simp: exSyscalls_def lookup_def priorityTuple_def less_eq_prod_def split: if_splits)

lemma tie_findTblFiles:
  "findTblFiles tieWalk [\<lparr>KernelHeaderArch = ''x86'', VMArch = ''amd64''\<rparr>] ''k'' = Inr tieTblFiles"
  by (simp add: findTblFiles_def tieWalk_def tieTblFiles_def appendTo_def lookup_def
      strings_HasSuffix_def)

lemma tie_build_ab:
  "buildSyscallRenameMap pq ''amd64'' [\<lparr>KernelHeaderArch = ''x86'', VMArch = ''amd64''\<rparr>]
       tieWalk tieRead [''k/arch/x86/a.tbl'', ''k/arch/x86/b.tbl''] [''time''] ''k''
     = Inr [''time32'' \<mapsto> [''time'']]"
  by (simp add: buildSyscallRenameMap_def findTblFiles_def tieWalk_def tieRead_def
      strings_HasSuffix_def lookup_def appendTo_def parseTblFile_def scanLines_def dropCR_def
      parseTblLine_def Let_def strings_Fields_def asciiSpace_def spaceRune2_def
      spaceRune3_def strings_TrimPrefix_def
      strings_HasPrefix_def slices_SortFunc_def insertionSortCmpFunc_def cmpTbl_def strings_Compare_def)

lemma tie_build_ba:
  "buildSyscallRenameMap pq ''amd64'' [\<lparr>KernelHeaderArch = ''x86'', VMArch = ''amd64''\<rparr>]
       tieWalk tieRead [''k/arch/x86/b.tbl'', ''k/arch/x86/a.tbl''] [''time''] ''k''
     = Inr [''time'' \<mapsto> [''time'']]"
  by (simp add: buildSyscallRenameMap_def findTblFiles_def tieWalk_def tieRead_def
      strings_HasSuffix_def lookup_def appendTo_def parseTblFile_def scanLines_def dropCR_def
      parseTblLine_def Let_def strings_Fields_def asciiSpace_def spaceRune2_def
      spaceRune3_def strings_TrimPrefix_def
      strings_HasPrefix_def slices_SortFunc_def insertionSortCmpFunc_def cmpTbl_def strings_Compare_def)

text \<open>With thirteen candidates the symbol chosen among those of the first rank is the
  library's: a sort that returns \<open>longSorted\<close> keeps the promise and files the name under
  \<open>f4\<close>, the stable order files it under \<open>f0\<close>.\<close>

lemma long_sortedPermutation: "sortedPermutation (cmpTbl ''amd64'') longDescs longSorted"
  by (simp add: sortedPermutation_cmpTbl_iff longDescs_def longSorted_def priorityTuple_def
      less_eq_prod_def)

lemma long_length: "length longDescs = 13"
  by (simp add: longDescs_def)

lemma long_winner_library:
  "winner (\<lambda>c xs. longSorted) ''amd64'' [''X'' \<mapsto> longDescs] ''X'' = ''f4''"
proof -
  have "slices_SortFunc (\<lambda>c xs. longSorted) (cmpTbl ''amd64'') longDescs = longSorted"
    by (rule slices_SortFunc_any_sortedPermutation [OF long_sortedPermutation])
      (simp add: long_length)
  then show ?thesis by (simp add: winner_def lookup_def longSorted_def)
qed

lemma long_winner_stable:
  "winner insertionSortCmpFunc ''amd64'' [''X'' \<mapsto> longDescs] ''X'' = ''f0''"
proof -
  have "insertionSortCmpFunc (cmpTbl ''amd64'') longDescs
      = \<lparr>fn = ''f0'', arch = ''amd64'', is64bit = True\<rparr> # tl (insertionSortCmpFunc (cmpTbl ''amd64'') longDescs)"
    by (simp add: insertionSortCmpFunc_def longDescs_def cmpTbl_def strings_Compare_def)
  then have "hd (insertionSortCmpFunc (cmpTbl ''amd64'') longDescs) = \<lparr>fn = ''f0'', arch = ''amd64'', is64bit = True\<rparr>"
    by (metis list.sel(1))
  moreover have "slices_SortFunc insertionSortCmpFunc (cmpTbl ''amd64'') longDescs
      = insertionSortCmpFunc (cmpTbl ''amd64'') longDescs"
    by (simp add: slices_SortFunc_def)
  ultimately show ?thesis by (simp add: winner_def lookup_def)
qed

section \<open>Claims about the Identity Resolver\<close>

text \<open>
  C2. The sorted candidate list is a permutation of the candidates in ascending order of the
  priority tuple (target architecture first, then 64-bit before 32-bit, then the architecture
  name in ascending lexicographic order), and the symbol of its first record is the one the
  syscall name is filed under. For the two candidates \<open>(A, target, 32-bit)\<close> and
  \<open>(B, other, 64-bit)\<close>, in either order, the symbol chosen is \<open>A\<close>.
\<close>

theorem C2_tie_break:
  "mset (slices_SortFunc pdqsort (cmpTbl targetArch) descs) = mset descs \<and>
   sorted (map (priorityTuple targetArch) (slices_SortFunc pdqsort (cmpTbl targetArch) descs)) \<and>
   (syscalls name = Some descs \<and> descs \<noteq> [] \<longrightarrow>
      renameLoop pdqsort targetArch syscalls [name] rename =
        Inr (appendTo rename (fn (hd (slices_SortFunc pdqsort (cmpTbl targetArch) descs))) name)) \<and>
   (other \<noteq> targetArch \<longrightarrow>
      renameLoop pdqsort targetArch
        [X \<mapsto> [\<lparr>fn = A, arch = targetArch, is64bit = False\<rparr>,
                \<lparr>fn = B, arch = other, is64bit = True\<rparr>]] [X] Map.empty = Inr [A \<mapsto> [X]] \<and>
      renameLoop pdqsort targetArch
        [X \<mapsto> [\<lparr>fn = B, arch = other, is64bit = True\<rparr>,
                \<lparr>fn = A, arch = targetArch, is64bit = False\<rparr>]] [X] Map.empty = Inr [A \<mapsto> [X]])"
proof (intro conjI impI)
  show "mset (slices_SortFunc pdqsort (cmpTbl targetArch) descs) = mset descs"
    by (rule mset_slices_SortFunc)
  show "sorted (map (priorityTuple targetArch) (slices_SortFunc pdqsort (cmpTbl targetArch) descs))"
    using slices_SortFunc_cmpTbl [of targetArch descs pdqsort]
    by (simp add: sortedPermutation_cmpTbl_iff)
next
  assume a: "syscalls name = Some descs \<and> descs \<noteq> []"
  then have "\<forall>n\<in>set [name]. lookup syscalls n \<noteq> []" by (simp add: lookup_def)
  from renameLoop_Inr [OF this, of pdqsort targetArch rename] a
  show "renameLoop pdqsort targetArch syscalls [name] rename =
        Inr (appendTo rename (fn (hd (slices_SortFunc pdqsort (cmpTbl targetArch) descs))) name)"
    by (simp add: winner_def lookup_def)
next
  assume "other \<noteq> targetArch"
  then show "renameLoop pdqsort targetArch
        [X \<mapsto> [\<lparr>fn = A, arch = targetArch, is64bit = False\<rparr>,
                \<lparr>fn = B, arch = other, is64bit = True\<rparr>]] [X] Map.empty = Inr [A \<mapsto> [X]]"
    by (simp add: lookup_def slices_SortFunc_def insertionSortCmpFunc_def cmpTbl_def appendTo_def)
next
  assume "other \<noteq> targetArch"
  then show "renameLoop pdqsort targetArch
        [X \<mapsto> [\<lparr>fn = B, arch = other, is64bit = True\<rparr>,
                \<lparr>fn = A, arch = targetArch, is64bit = False\<rparr>]] [X] Map.empty = Inr [A \<mapsto> [X]]"
    by (simp add: lookup_def slices_SortFunc_def insertionSortCmpFunc_def cmpTbl_def appendTo_def)
qed

text \<open>Four candidates for \<open>read\<close>: the 64-bit amd64 record wins, the 32-bit amd64 record
  is second, then arm64 (64-bit) and arm (32-bit).\<close>

theorem C2_tie_break_witness:
  "slices_SortFunc insertionSortCmpFunc (cmpTbl ''amd64'')
      [\<lparr>fn = ''read_arm'', arch = ''arm64'', is64bit = True\<rparr>,
       \<lparr>fn = ''read32'', arch = ''amd64'', is64bit = False\<rparr>,
       \<lparr>fn = ''read_arm32'', arch = ''arm'', is64bit = False\<rparr>,
       \<lparr>fn = ''read'', arch = ''amd64'', is64bit = True\<rparr>]
    = [\<lparr>fn = ''read'', arch = ''amd64'', is64bit = True\<rparr>,
       \<lparr>fn = ''read32'', arch = ''amd64'', is64bit = False\<rparr>,
       \<lparr>fn = ''read_arm'', arch = ''arm64'', is64bit = True\<rparr>,
       \<lparr>fn = ''read_arm32'', arch = ''arm'', is64bit = False\<rparr>] \<and>
   renameLoop insertionSortCmpFunc ''amd64''
      [''read'' \<mapsto> [\<lparr>fn = ''read_arm'', arch = ''arm64'', is64bit = True\<rparr>,
       \<lparr>fn = ''read32'', arch = ''amd64'', is64bit = False\<rparr>,
       \<lparr>fn = ''read_arm32'', arch = ''arm'', is64bit = False\<rparr>,
       \<lparr>fn = ''read'', arch = ''amd64'', is64bit = True\<rparr>]] [''read''] Map.empty
    = Inr [''read'' \<mapsto> [''read'']] \<and>
   renameLoop insertionSortCmpFunc ''amd64''
        [''X'' \<mapsto> [\<lparr>fn = ''A'', arch = ''amd64'', is64bit = False\<rparr>,
                \<lparr>fn = ''B'', arch = ''arm64'', is64bit = True\<rparr>]] [''X''] Map.empty
    = Inr [''A'' \<mapsto> [''X'']]"
  using C2_tie_break [of insertionSortCmpFunc "''amd64''"
      "[\<lparr>fn = ''read_arm'', arch = ''arm64'', is64bit = True\<rparr>,
       \<lparr>fn = ''read32'', arch = ''amd64'', is64bit = False\<rparr>,
       \<lparr>fn = ''read_arm32'', arch = ''arm'', is64bit = False\<rparr>,
       \<lparr>fn = ''read'', arch = ''amd64'', is64bit = True\<rparr>]"
      "[''read'' \<mapsto> [\<lparr>fn = ''read_arm'', arch = ''arm64'', is64bit = True\<rparr>,
       \<lparr>fn = ''read32'', arch = ''amd64'', is64bit = False\<rparr>,
       \<lparr>fn = ''read_arm32'', arch = ''arm'', is64bit = False\<rparr>,
       \<lparr>fn = ''read'', arch = ''amd64'', is64bit = True\<rparr>]]" "''read''" Map.empty
      "''arm64''" "''X''" "''A''" "''B''"]
  by (simp add: slices_SortFunc_def insertionSortCmpFunc_def cmpTbl_def strings_Compare_def appendTo_def lookup_def)

text \<open>
  C3 (as the code has it). A table line is ignored when it has fewer than 4 white-space
  separated fields or when its first field is exactly \<open>#\<close>. Every other line is a candidate
  with group = field 2, syscall name = field 3 and entry symbol = field 4 without the prefix
  \<open>sys_\<close>; unless the exclusion filter discards it, the record appended to the list of its
  syscall name has that symbol, the architecture being parsed, and is64bit true exactly when
  the group is \<open>common\<close> or contains \<open>64\<close>.
\<close>

theorem C3_parse_line:
  "(length (strings_Fields line) < 4 \<or> strings_Fields line ! 0 = ''#''
      \<longrightarrow> parseTblLine line archName syscalls = syscalls) \<and>
   (4 \<le> length (strings_Fields line) \<and> strings_Fields line ! 0 \<noteq> ''#'' \<and>
    \<not> exclusionFilter (strings_Fields line ! 1) (strings_Fields line ! 2)
         (strippedSymbol (strings_Fields line ! 3))
      \<longrightarrow> parseTblLine line archName syscalls =
            syscalls(strings_Fields line ! 2 \<mapsto>
              lookup syscalls (strings_Fields line ! 2) @
                [\<lparr>fn = strippedSymbol (strings_Fields line ! 3), arch = archName,
                  is64bit = (strings_Fields line ! 1 = ''common'' \<or>
                    (\<exists>pre post. strings_Fields line ! 1 = pre @ ''64'' @ post))\<rparr>]))"
proof (intro conjI impI)
  assume "length (strings_Fields line) < 4 \<or> strings_Fields line ! 0 = ''#''"
  then show "parseTblLine line archName syscalls = syscalls"
    by (auto simp: parseTblLine_def Let_def)
next
  assume a: "4 \<le> length (strings_Fields line) \<and> strings_Fields line ! 0 \<noteq> ''#'' \<and>
    \<not> exclusionFilter (strings_Fields line ! 1) (strings_Fields line ! 2)
         (strippedSymbol (strings_Fields line ! 3))"
  then have "\<not> (length (strings_Fields line) < 4 \<or> strings_Fields line ! 0 = ''#'')"
    by auto
  moreover from a have "\<not> (strings_HasPrefix (strings_Fields line ! 2) ''unused''
      \<or> strings_TrimPrefix (strings_Fields line ! 3) ''sys_'' = ''-''
      \<or> strings_Fields line ! 1 = ''spu''
      \<or> strings_Fields line ! 2 = ''llseek'' \<or> strings_Fields line ! 2 = ''reboot'')"
    by (simp only: exclusionFilter_code strippedSymbol_eq) simp
  ultimately show "parseTblLine line archName syscalls =
            syscalls(strings_Fields line ! 2 \<mapsto>
              lookup syscalls (strings_Fields line ! 2) @
                [\<lparr>fn = strippedSymbol (strings_Fields line ! 3), arch = archName,
                  is64bit = (strings_Fields line ! 1 = ''common'' \<or>
                    (\<exists>pre post. strings_Fields line ! 1 = pre @ ''64'' @ post))\<rparr>])"
    unfolding parseTblLine_def Let_def
    by (simp only: if_False appendTo_def strippedSymbol_eq strings_Contains_iff)
qed

text \<open>The line of the comment in the source is kept, and its group \<open>common\<close> makes the
  record 64-bit; a comment line is ignored by its first field, and a line of three fields by
  its length.\<close>

theorem C3_parse_line_witness:
  "4 \<le> length (strings_Fields ''288      common  accept4                 sys_accept4'') \<and>
   strings_Fields ''288      common  accept4                 sys_accept4'' ! 0 \<noteq> ''#'' \<and>
   parseTblLine ''288      common  accept4                 sys_accept4'' ''amd64'' Map.empty =
     [''accept4'' \<mapsto> [\<lparr>fn = ''accept4'', arch = ''amd64'', is64bit = True\<rparr>]] \<and>
   strings_Fields ''# 64-bit system call numbers'' ! 0 = ''#'' \<and>
   parseTblLine ''# 64-bit system call numbers'' ''amd64'' exSyscalls = exSyscalls \<and>
   length (strings_Fields ''#define __NR_read 0'') < 4 \<and>
   parseTblLine ''#define __NR_read 0'' ''amd64'' exSyscalls = exSyscalls"
  using C3_parse_line [of "''288      common  accept4                 sys_accept4''" "''amd64''"
      Map.empty]
    C3_parse_line [of "''# 64-bit system call numbers''" "''amd64''" exSyscalls]
    C3_parse_line [of "''#define __NR_read 0''" "''amd64''" exSyscalls]
  by (simp add: strings_Fields_def asciiSpace_def spaceRune2_def spaceRune3_def
      exclusionFilter_def strippedSymbol_def lookup_def)

text \<open>
  C3 as stated fails: a line that starts with \<open>#\<close> is not ignored when the \<open>#\<close> is followed
  at once by other text and the line has four fields; only a first field equal to \<open>#\<close> marks
  a comment.
\<close>

theorem C3_hash_line_counterexample:
  "hd ''#288 common accept4 sys_accept4'' = CHR ''#'' \<and>
   parseTblLine ''#288 common accept4 sys_accept4'' ''amd64'' Map.empty =
     [''accept4'' \<mapsto> [\<lparr>fn = ''accept4'', arch = ''amd64'', is64bit = True\<rparr>]]"
  by (simp add: parseTblLine_def Let_def strings_Fields_def asciiSpace_def spaceRune2_def
      spaceRune3_def appendTo_def
      strings_TrimPrefix_def strings_HasPrefix_def lookup_def)

text \<open>
  C4. A line whose syscall name starts with \<open>unused\<close>, whose stripped entry symbol is \<open>-\<close>,
  whose group is \<open>spu\<close>, or whose syscall name is \<open>llseek\<close> or \<open>reboot\<close> leaves the
  aggregation as it is. Hence every pair of a symbol and a name in the Identity Map comes
  from a line of a parsed table file that is not ignored and passes the filter: no name in a value list starts
  with \<open>unused\<close> or is \<open>llseek\<close> or \<open>reboot\<close>, and no symbol is \<open>-\<close>.
\<close>

theorem C4_exclusion:
  "(4 \<le> length (strings_Fields line) \<and>
    exclusionFilter (strings_Fields line ! 1) (strings_Fields line ! 2)
       (strippedSymbol (strings_Fields line ! 3))
      \<longrightarrow> parseTblLine line archName syscalls = syscalls) \<and>
   (buildSyscallRenameMap pdqsort targetArch targetsList walk readFile fileOrder syscallOrder sourceDir
        = Inr rename \<and> name \<in> set (lookup rename entry)
      \<longrightarrow> (\<exists>fl\<in>set fileOrder. \<exists>line\<in>set (scanLines (contents readFile fl)).
             4 \<le> length (strings_Fields line) \<and> strings_Fields line ! 0 \<noteq> ''#'' \<and>
             strings_Fields line ! 2 = name \<and>
             strippedSymbol (strings_Fields line ! 3) = entry \<and>
             \<not> exclusionFilter (strings_Fields line ! 1) (strings_Fields line ! 2)
                  (strippedSymbol (strings_Fields line ! 3)))
          \<and> \<not> (\<exists>rest. name = ''unused'' @ rest) \<and> name \<noteq> ''llseek'' \<and> name \<noteq> ''reboot''
          \<and> entry \<noteq> ''-'')"
proof (intro conjI impI)
  assume "4 \<le> length (strings_Fields line) \<and>
    exclusionFilter (strings_Fields line ! 1) (strings_Fields line ! 2)
       (strippedSymbol (strings_Fields line ! 3))"
  then have "tblCandidate line = None" by (simp add: tblCandidate_def Let_def)
  then show "parseTblLine line archName syscalls = syscalls"
    by (simp add: parseTblLine_candidate)
next
  assume a: "buildSyscallRenameMap pdqsort targetArch targetsList walk readFile fileOrder syscallOrder
      sourceDir = Inr rename \<and> name \<in> set (lookup rename entry)"
  then obtain fl line b where fl: "fl \<in> set fileOrder"
    and line: "line \<in> set (scanLines (contents readFile fl))"
    and c: "tblCandidate line = Some (name, entry, b)"
    using identity_map_origin [of pdqsort targetArch targetsList walk readFile fileOrder syscallOrder
        sourceDir rename name entry] by blast
  note k = tblCandidate_Some [OF c]
  from fl line k
  show "\<exists>fl\<in>set fileOrder. \<exists>line\<in>set (scanLines (contents readFile fl)).
             4 \<le> length (strings_Fields line) \<and> strings_Fields line ! 0 \<noteq> ''#'' \<and>
             strings_Fields line ! 2 = name \<and>
             strippedSymbol (strings_Fields line ! 3) = entry \<and>
             \<not> exclusionFilter (strings_Fields line ! 1) (strings_Fields line ! 2)
                  (strippedSymbol (strings_Fields line ! 3))"
    by blast
  from k show "\<not> (\<exists>rest. name = ''unused'' @ rest)" by (simp add: exclusionFilter_def)
  from k show "name \<noteq> ''llseek''" by (simp add: exclusionFilter_def)
  from k show "name \<noteq> ''reboot''" by (simp add: exclusionFilter_def)
  from k show "entry \<noteq> ''-''" by (simp add: exclusionFilter_def)
qed

text \<open>The \<open>reboot\<close> line of the example table is dropped; \<open>umount2\<close> is in the map on
  account of its own line.\<close>

theorem C4_exclusion_witness:
  "4 \<le> length (strings_Fields ''88 common reboot sys_reboot'') \<and>
   exclusionFilter (strings_Fields ''88 common reboot sys_reboot'' ! 1)
     (strings_Fields ''88 common reboot sys_reboot'' ! 2)
     (strippedSymbol (strings_Fields ''88 common reboot sys_reboot'' ! 3)) \<and>
   parseTblLine ''88 common reboot sys_reboot'' ''amd64'' exSyscalls = exSyscalls \<and>
   buildSyscallRenameMap insertionSortCmpFunc ''amd64'' exTargets exWalk exRead
       [''k/arch/x86/s.tbl'', ''k/arch/arm64/s.tbl''] [''umount2'', ''read'', ''umount''] ''k''
     = Inr [''read'' \<mapsto> [''read''], ''umount'' \<mapsto> [''umount2'', ''umount'']] \<and>
   ''umount2'' \<in> set (lookup [''read'' \<mapsto> [''read''], ''umount'' \<mapsto> [''umount2'', ''umount'']]
                      ''umount'') \<and>
   ''umount2'' \<noteq> ''reboot''"
  using C4_exclusion [of "''88 common reboot sys_reboot''" "''amd64''" exSyscalls
      insertionSortCmpFunc "''amd64''"
      exTargets exWalk exRead "[''k/arch/x86/s.tbl'', ''k/arch/arm64/s.tbl'']"
      "[''umount2'', ''read'', ''umount'']" "''k''"
      "[''read'' \<mapsto> [''read''], ''umount'' \<mapsto> [''umount2'', ''umount'']]" "''umount2''" "''umount''"]
  by (simp add: ex_build strings_Fields_def asciiSpace_def spaceRune2_def
      spaceRune3_def exclusionFilter_def
      strippedSymbol_def lookup_def)

text \<open>
  C5. In a run that finds table files and reads them, the resolver returns an Identity Map.
  The candidates of a syscall name are the records of its lines that passed the filter, in
  every parsed table file and for every architecture the file serves, and the aggregated
  names are those with such a line. Every aggregated name is in the value list of exactly one
  symbol. That symbol is a tie-break winner of the name's candidates: the entry symbol of a
  candidate that no candidate precedes in the order target architecture first, then 64-bit,
  then architecture name (it is the symbol of the first record of the sorted list). No list
  repeats a name or holds a name that was not aggregated, and two names with the same chosen
  symbol are both in that symbol's list.
\<close>

theorem C5_identity_map:
  assumes "findTblFiles walk targetsList sourceDir = Inr tblFiles"
    and "dom tblFiles \<noteq> {}"
    and "parseFiles readFile tblFiles fileOrder Map.empty = Inr syscalls"
    and "rangeOrder syscalls syscallOrder"
  shows "\<exists>rename.
      buildSyscallRenameMap pdqsort targetArch targetsList walk readFile fileOrder syscallOrder sourceDir
        = Inr rename \<and>
      (\<forall>name. lookup syscalls name
          = concat (map (tableRecords readFile tblFiles name) fileOrder)) \<and>
      dom syscalls = {name. \<exists>fl\<in>set fileOrder. lookup tblFiles fl \<noteq> [] \<and>
          (\<exists>line\<in>set (scanLines (contents readFile fl)). \<exists>f b.
             tblCandidate line = Some (name, f, b))} \<and>
      (\<forall>name\<in>dom syscalls. \<exists>!en. name \<in> set (lookup rename en)) \<and>
      (\<forall>name\<in>dom syscalls. \<forall>en. name \<in> set (lookup rename en) \<longrightarrow>
          firstRanked targetArch (lookup syscalls name) en) \<and>
      (\<forall>name\<in>dom syscalls. \<forall>en.
          name \<in> set (lookup rename en) \<longleftrightarrow> en = winner pdqsort targetArch syscalls name) \<and>
      (\<forall>en. distinct (lookup rename en) \<and> set (lookup rename en) \<subseteq> dom syscalls) \<and>
      (\<forall>n1\<in>dom syscalls. \<forall>n2\<in>dom syscalls.
          winner pdqsort targetArch syscalls n1 = winner pdqsort targetArch syscalls n2 \<longrightarrow>
          {n1, n2} \<subseteq> set (lookup rename (winner pdqsort targetArch syscalls n1)))"
proof -
  from parseFiles_Inr [OF assms(3)] have ne: "noEmptyEntry syscalls"
    and lk: "\<And>n. lookup syscalls n = concat (map (tableRecords readFile tblFiles n) fileOrder)"
    by (simp_all add: noEmptyEntry_empty lookup_empty)
  from assms(4) have d: "distinct syscallOrder" and so: "set syscallOrder = dom syscalls"
    by (simp_all add: rangeOrder_def)
  have dm: "dom syscalls = {n. lookup syscalls n \<noteq> []}" using ne by (rule noEmptyEntry_dom)
  with so have "\<forall>n\<in>set syscallOrder. lookup syscalls n \<noteq> []" by simp
  then have rl: "renameLoop pdqsort targetArch syscalls syscallOrder Map.empty
      = Inr (foldl (\<lambda>r n. appendTo r (winner pdqsort targetArch syscalls n) n) Map.empty syscallOrder)"
    by (rule renameLoop_Inr)
  define rename where
    "rename = foldl (\<lambda>r n. appendTo r (winner pdqsort targetArch syscalls n) n) Map.empty syscallOrder"
  have b: "buildSyscallRenameMap pdqsort targetArch targetsList walk readFile fileOrder syscallOrder
      sourceDir = Inr rename"
    using assms(1-3) rl by (simp add: buildSyscallRenameMap_def rename_def)
  have l: "\<And>en. lookup rename en
      = filter (\<lambda>n. winner pdqsort targetArch syscalls n = en) syscallOrder"
    by (simp add: rename_def lookup_foldl_appendTo lookup_empty)
  have p0: "\<forall>name. lookup syscalls name
      = concat (map (tableRecords readFile tblFiles name) fileOrder)"
    using lk by simp
  have p1: "\<forall>name\<in>dom syscalls. \<forall>en.
          name \<in> set (lookup rename en) \<longleftrightarrow> en = winner pdqsort targetArch syscalls name"
    using so by (auto simp: l)
  have pu: "\<forall>name\<in>dom syscalls. \<exists>!en. name \<in> set (lookup rename en)"
    using p1 by auto
  have pr: "\<forall>name\<in>dom syscalls. \<forall>en. name \<in> set (lookup rename en) \<longrightarrow>
          firstRanked targetArch (lookup syscalls name) en"
  proof (intro ballI allI impI)
    fix name en
    assume n: "name \<in> dom syscalls" and m: "name \<in> set (lookup rename en)"
    from n dm have "lookup syscalls name \<noteq> []" by simp
    from winner_least [OF this, of pdqsort targetArch]
    have "firstRanked targetArch (lookup syscalls name) (winner pdqsort targetArch syscalls name)"
      by (simp add: firstRanked_def)
    with p1 n m show "firstRanked targetArch (lookup syscalls name) en" by simp
  qed
  have p2: "\<forall>en. distinct (lookup rename en) \<and> set (lookup rename en) \<subseteq> dom syscalls"
    using so d by (auto simp: l)
  have p3: "\<forall>n1\<in>dom syscalls. \<forall>n2\<in>dom syscalls.
          winner pdqsort targetArch syscalls n1 = winner pdqsort targetArch syscalls n2 \<longrightarrow>
          {n1, n2} \<subseteq> set (lookup rename (winner pdqsort targetArch syscalls n1))"
    using so by (auto simp: l)
  have p4: "dom syscalls = {name. \<exists>fl\<in>set fileOrder. lookup tblFiles fl \<noteq> [] \<and>
          (\<exists>line\<in>set (scanLines (contents readFile fl)). \<exists>f b.
             tblCandidate line = Some (name, f, b))}"
    unfolding dm lk
    by (auto simp: tableRecords_nonempty_iff)
  from b p0 p4 pu pr p1 p2 p3 show ?thesis by blast
qed

text \<open>The example tree with the arm64 table parsed first: the candidates of \<open>read\<close> are
  aggregated with the arm64 record in front, and \<open>read\<close> is filed under the symbol of the
  amd64 record, the only candidate of the first rank; \<open>umount\<close> and \<open>umount2\<close> both resolve
  to \<open>umount\<close>.\<close>

theorem C5_identity_map_witness:
  "\<exists>rename.
      buildSyscallRenameMap insertionSortCmpFunc ''amd64''
         [\<lparr>KernelHeaderArch = ''arm64'', VMArch = ''arm64''\<rparr>,
          \<lparr>KernelHeaderArch = ''x86'', VMArch = ''amd64''\<rparr>] exWalk exRead
         [''k/arch/arm64/s.tbl'', ''k/arch/x86/s.tbl''] [''umount'', ''umount2'', ''read''] ''k''
        = Inr rename \<and>
      rename = [''umount'' \<mapsto> [''umount'', ''umount2''], ''read'' \<mapsto> [''read'']] \<and>
      lookup exSyscallsRev ''read''
        = [\<lparr>fn = ''read_arm'', arch = ''arm64'', is64bit = True\<rparr>,
           \<lparr>fn = ''read'', arch = ''amd64'', is64bit = True\<rparr>] \<and>
      firstRanked ''amd64'' (lookup exSyscallsRev ''read'') ''read'' \<and>
      \<not> firstRanked ''amd64'' (lookup exSyscallsRev ''read'') ''read_arm'' \<and>
      {''umount'', ''umount2''} \<subseteq> set (lookup rename ''umount'') \<and>
      dom exSyscallsRev = {''umount'', ''umount2'', ''read''}"
proof -
  have d: "dom exTblFilesRev \<noteq> {}" by (simp add: exTblFilesRev_def)
  have o: "rangeOrder exSyscallsRev [''umount'', ''umount2'', ''read'']"
    by (auto simp: rangeOrder_def exSyscallsRev_def)
  have dm: "dom exSyscallsRev = {''umount'', ''umount2'', ''read''}"
    by (auto simp: exSyscallsRev_def)
  have lr: "lookup exSyscallsRev ''read''
        = [\<lparr>fn = ''read_arm'', arch = ''arm64'', is64bit = True\<rparr>,
           \<lparr>fn = ''read'', arch = ''amd64'', is64bit = True\<rparr>]"
    by (simp add: exSyscallsRev_def lookup_def)
  have nf: "\<not> firstRanked ''amd64'' (lookup exSyscallsRev ''read'') ''read_arm''"
    unfolding lr by (simp add: firstRanked_def priorityTuple_def less_eq_prod_def)
  from C5_identity_map [OF ex_findTblFiles_rev d ex_parseFiles_rev o,
      of insertionSortCmpFunc "''amd64''"]
  obtain rename where
    r: "buildSyscallRenameMap insertionSortCmpFunc ''amd64''
         [\<lparr>KernelHeaderArch = ''arm64'', VMArch = ''arm64''\<rparr>,
          \<lparr>KernelHeaderArch = ''x86'', VMArch = ''amd64''\<rparr>] exWalk exRead
         [''k/arch/arm64/s.tbl'', ''k/arch/x86/s.tbl''] [''umount'', ''umount2'', ''read''] ''k''
        = Inr rename"
    and f: "\<forall>name\<in>dom exSyscallsRev. \<forall>en. name \<in> set (lookup rename en) \<longrightarrow>
          firstRanked ''amd64'' (lookup exSyscallsRev name) en"
    by (elim exE conjE) (rule that)
  from r have e: "rename = [''umount'' \<mapsto> [''umount'', ''umount2''], ''read'' \<mapsto> [''read'']]"
    by (simp only: ex_build_rev sum.inject)
  then have m: "''read'' \<in> set (lookup rename ''read'')" by (simp add: lookup_def)
  have "''read'' \<in> dom exSyscallsRev" by (simp add: exSyscallsRev_def)
  from f [rule_format, OF this m]
  have fr: "firstRanked ''amd64'' (lookup exSyscallsRev ''read'') ''read''" .
  from e have u: "{''umount'', ''umount2''} \<subseteq> set (lookup rename ''umount'')"
    by (simp add: lookup_def)
  show ?thesis
    by (rule exI [of _ rename]) (intro conjI r e lr fr nf u dm)
qed

text \<open>
  C6 (the code departs from it). Two table files of one architecture, \<open>a.tbl\<close> and
  \<open>b.tbl\<close>, give the syscall \<open>time\<close> the entry points \<open>time32\<close> and \<open>time\<close>, both for
  amd64 and both 32-bit, so that the comparison function ties on the two records. Discovery
  returns both files, and the range loop over them may visit them in either order. Visiting
  \<open>a.tbl\<close> first the resolver files \<open>time\<close> under \<open>time32\<close>, visiting \<open>b.tbl\<close> first it
  files \<open>time\<close> under \<open>time\<close>: the two runs return different maps, whatever the library's
  sort does above 12 elements. The comment in \<^verbatim>\<open>buildSyscallRenameMap\<close> says of the comparison
  function that it orders the candidates \<^verbatim>\<open>to have deterministic result\<close>. Besides, on the
  example tree two iteration orders of the syscall names give the value list of \<open>umount\<close> as
  \<open>umount2, umount\<close> and as \<open>umount, umount2\<close>: the value lists are not sorted.
\<close>

theorem C6_runs_differ:
  "findTblFiles tieWalk [\<lparr>KernelHeaderArch = ''x86'', VMArch = ''amd64''\<rparr>] ''k'' = Inr tieTblFiles \<and>
   rangeOrder tieTblFiles [''k/arch/x86/a.tbl'', ''k/arch/x86/b.tbl''] \<and>
   rangeOrder tieTblFiles [''k/arch/x86/b.tbl'', ''k/arch/x86/a.tbl''] \<and>
   buildSyscallRenameMap pdqsort ''amd64'' [\<lparr>KernelHeaderArch = ''x86'', VMArch = ''amd64''\<rparr>]
       tieWalk tieRead [''k/arch/x86/a.tbl'', ''k/arch/x86/b.tbl''] [''time''] ''k''
     = Inr [''time32'' \<mapsto> [''time'']] \<and>
   buildSyscallRenameMap pdqsort ''amd64'' [\<lparr>KernelHeaderArch = ''x86'', VMArch = ''amd64''\<rparr>]
       tieWalk tieRead [''k/arch/x86/b.tbl'', ''k/arch/x86/a.tbl''] [''time''] ''k''
     = Inr [''time'' \<mapsto> [''time'']] \<and>
   buildSyscallRenameMap pdqsort ''amd64'' [\<lparr>KernelHeaderArch = ''x86'', VMArch = ''amd64''\<rparr>]
       tieWalk tieRead [''k/arch/x86/a.tbl'', ''k/arch/x86/b.tbl''] [''time''] ''k''
     \<noteq> buildSyscallRenameMap pdqsort ''amd64'' [\<lparr>KernelHeaderArch = ''x86'', VMArch = ''amd64''\<rparr>]
       tieWalk tieRead [''k/arch/x86/b.tbl'', ''k/arch/x86/a.tbl''] [''time''] ''k'' \<and>
   rangeOrder exSyscalls [''umount2'', ''read'', ''umount''] \<and>
   rangeOrder exSyscalls [''umount'', ''umount2'', ''read''] \<and>
   buildSyscallRenameMap pdqsort ''amd64'' exTargets exWalk exRead
       [''k/arch/x86/s.tbl'', ''k/arch/arm64/s.tbl''] [''umount2'', ''read'', ''umount''] ''k''
     = Inr [''read'' \<mapsto> [''read''], ''umount'' \<mapsto> [''umount2'', ''umount'']] \<and>
   buildSyscallRenameMap pdqsort ''amd64'' exTargets exWalk exRead
       [''k/arch/x86/s.tbl'', ''k/arch/arm64/s.tbl''] [''umount'', ''umount2'', ''read''] ''k''
     = Inr [''umount'' \<mapsto> [''umount'', ''umount2''], ''read'' \<mapsto> [''read'']] \<and>
   buildSyscallRenameMap pdqsort ''amd64'' exTargets exWalk exRead
       [''k/arch/x86/s.tbl'', ''k/arch/arm64/s.tbl''] [''umount2'', ''read'', ''umount''] ''k''
     \<noteq> buildSyscallRenameMap pdqsort ''amd64'' exTargets exWalk exRead
       [''k/arch/x86/s.tbl'', ''k/arch/arm64/s.tbl''] [''umount'', ''umount2'', ''read''] ''k''"
proof -
  have o: "rangeOrder exSyscalls [''umount'', ''umount2'', ''read'']"
    by (auto simp: rangeOrder_def exSyscalls_def)
  have tab: "rangeOrder tieTblFiles [''k/arch/x86/a.tbl'', ''k/arch/x86/b.tbl'']"
    by (auto simp: rangeOrder_def tieTblFiles_def)
  have tba: "rangeOrder tieTblFiles [''k/arch/x86/b.tbl'', ''k/arch/x86/a.tbl'']"
    by (auto simp: rangeOrder_def tieTblFiles_def)
  have "[''time32'' \<mapsto> [''time'']] ''time'' \<noteq> [''time'' \<mapsto> [''time'']] ''time''"
    by simp
  then have t: "[''time32'' \<mapsto> [''time'']] \<noteq> [''time'' \<mapsto> [''time'']]"
    by metis
  have "[''read'' \<mapsto> [''read''], ''umount'' \<mapsto> [''umount2'', ''umount'']] ''umount''
      \<noteq> [''umount'' \<mapsto> [''umount'', ''umount2''], ''read'' \<mapsto> [''read'']] ''umount''"
    by simp
  then have u: "[''read'' \<mapsto> [''read''], ''umount'' \<mapsto> [''umount2'', ''umount'']]
      \<noteq> [''umount'' \<mapsto> [''umount'', ''umount2''], ''read'' \<mapsto> [''read'']]"
    by metis
  from t u show ?thesis
    by (simp only: tie_findTblFiles tab tba ex_build ex_build_other_order tie_build_ab
        tie_build_ba ex_rangeOrder o sum.inject simp_thms)
qed

text \<open>
  C9 (as the code has it). Discovery succeeds exactly when every walk below
  \<open>arch/<KernelHeaderArch>\<close> runs to its end without an error; the files discovered are then
  the paths ending in \<open>.tbl\<close> that the walks visit. The resolver fails with the
  no-table-files error (and so returns no Identity Map) exactly when every walk runs to its
  end and no table file is discovered. When discovery succeeds with a set that is not empty
  the resolver goes on to parse the files and to build the map. When a walk fails the
  resolver returns the error of the walk, whatever was discovered before; that error is not
  the no-table-files error.
\<close>

theorem C9_no_table_files:
  "(buildSyscallRenameMap pdqsort targetArch targetsList walk readFile fileOrder syscallOrder sourceDir
      = Inl (NoTblFiles sourceDir)
    \<longleftrightarrow> (\<exists>tblFiles. findTblFiles walk targetsList sourceDir = Inr tblFiles \<and> dom tblFiles = {}))
   \<and> (findTblFiles walk targetsList sourceDir = Inr tblFiles \<longrightarrow>
        dom tblFiles = {f. strings_HasSuffix f ''.tbl'' \<and>
           (\<exists>a\<in>set targetsList. f \<in> fst ` set (walk [sourceDir, ''arch'', KernelHeaderArch a]))}
        \<and> (dom tblFiles \<noteq> {} \<longrightarrow>
             buildSyscallRenameMap pdqsort targetArch targetsList walk readFile fileOrder syscallOrder
                 sourceDir
               = (case parseFiles readFile tblFiles fileOrder Map.empty of
                    Inl e \<Rightarrow> Inl e
                  | Inr syscalls \<Rightarrow> renameLoop pdqsort targetArch syscalls syscallOrder Map.empty)))
   \<and> (findTblFiles walk targetsList sourceDir = Inl err \<longrightarrow>
        (\<exists>msg. err = OsError msg) \<and>
        buildSyscallRenameMap pdqsort targetArch targetsList walk readFile fileOrder syscallOrder
            sourceDir = Inl err)
   \<and> ((\<exists>found. findTblFiles walk targetsList sourceDir = Inr found)
        \<longleftrightarrow> walksComplete walk targetsList sourceDir)
   \<and> (buildSyscallRenameMap pdqsort targetArch targetsList walk readFile fileOrder syscallOrder
          sourceDir = Inl (NoTblFiles sourceDir)
        \<longleftrightarrow> walksComplete walk targetsList sourceDir \<and>
            {f. strings_HasSuffix f ''.tbl'' \<and>
               (\<exists>a\<in>set targetsList. f \<in> fst ` set (walk [sourceDir, ''arch'', KernelHeaderArch a]))}
              = {})"
proof (intro conjI impI)
  show "buildSyscallRenameMap pdqsort targetArch targetsList walk readFile fileOrder syscallOrder sourceDir
      = Inl (NoTblFiles sourceDir)
    \<longleftrightarrow> (\<exists>tblFiles. findTblFiles walk targetsList sourceDir = Inr tblFiles \<and> dom tblFiles = {})"
  proof
    assume "buildSyscallRenameMap pdqsort targetArch targetsList walk readFile fileOrder syscallOrder
      sourceDir = Inl (NoTblFiles sourceDir)"
    then show "\<exists>tblFiles. findTblFiles walk targetsList sourceDir = Inr tblFiles \<and> dom tblFiles = {}"
      by (rule buildSyscallRenameMap_error)
  next
    assume "\<exists>tblFiles. findTblFiles walk targetsList sourceDir = Inr tblFiles \<and> dom tblFiles = {}"
    then show "buildSyscallRenameMap pdqsort targetArch targetsList walk readFile fileOrder syscallOrder
      sourceDir = Inl (NoTblFiles sourceDir)"
      by (auto simp: buildSyscallRenameMap_def)
  qed
next
  assume "findTblFiles walk targetsList sourceDir = Inr tblFiles"
  then show "dom tblFiles = {f. strings_HasSuffix f ''.tbl'' \<and>
           (\<exists>a\<in>set targetsList. f \<in> fst ` set (walk [sourceDir, ''arch'', KernelHeaderArch a]))}"
    by (rule findTblFiles_dom)
next
  assume "findTblFiles walk targetsList sourceDir = Inr tblFiles" "dom tblFiles \<noteq> {}"
  then show "buildSyscallRenameMap pdqsort targetArch targetsList walk readFile fileOrder syscallOrder
                 sourceDir
               = (case parseFiles readFile tblFiles fileOrder Map.empty of
                    Inl e \<Rightarrow> Inl e
                  | Inr syscalls \<Rightarrow> renameLoop pdqsort targetArch syscalls syscallOrder Map.empty)"
    by (simp add: buildSyscallRenameMap_def)
next
  assume e: "findTblFiles walk targetsList sourceDir = Inl err"
  then show "\<exists>msg. err = OsError msg"
    unfolding findTblFiles_def by (rule findArches_error)
  from e show "buildSyscallRenameMap pdqsort targetArch targetsList walk readFile fileOrder syscallOrder
            sourceDir = Inl err"
    by (simp add: buildSyscallRenameMap_def)
next
  show "(\<exists>found. findTblFiles walk targetsList sourceDir = Inr found)
        \<longleftrightarrow> walksComplete walk targetsList sourceDir"
    by (rule findTblFiles_ok_iff)
next
  let ?found = "{f. strings_HasSuffix f ''.tbl'' \<and>
               (\<exists>a\<in>set targetsList. f \<in> fst ` set (walk [sourceDir, ''arch'', KernelHeaderArch a]))}"
  show "buildSyscallRenameMap pdqsort targetArch targetsList walk readFile fileOrder syscallOrder
          sourceDir = Inl (NoTblFiles sourceDir)
        \<longleftrightarrow> walksComplete walk targetsList sourceDir \<and> ?found = {}"
  proof
    assume "buildSyscallRenameMap pdqsort targetArch targetsList walk readFile fileOrder syscallOrder
      sourceDir = Inl (NoTblFiles sourceDir)"
    then obtain tf where tf: "findTblFiles walk targetsList sourceDir = Inr tf" and d: "dom tf = {}"
      using buildSyscallRenameMap_error by blast
    from tf have "walksComplete walk targetsList sourceDir"
      using findTblFiles_ok_iff [of walk targetsList sourceDir] by blast
    moreover from findTblFiles_dom [OF tf] d have "?found = {}" by simp
    ultimately show "walksComplete walk targetsList sourceDir \<and> ?found = {}" by simp
  next
    assume a: "walksComplete walk targetsList sourceDir \<and> ?found = {}"
    then obtain tf where tf: "findTblFiles walk targetsList sourceDir = Inr tf"
      using findTblFiles_ok_iff [of walk targetsList sourceDir] by blast
    from findTblFiles_dom [OF tf] a have "dom tf = {}" by simp
    with tf show "buildSyscallRenameMap pdqsort targetArch targetsList walk readFile fileOrder
        syscallOrder sourceDir = Inl (NoTblFiles sourceDir)"
      by (simp add: buildSyscallRenameMap_def)
  qed
qed

text \<open>The example tree has two table files, so the resolver goes on to \<open>renameLoop\<close>; a
  source directory without table files gives the error; a directory that cannot be walked
  gives the error of the walk.\<close>

theorem C9_no_table_files_witness:
  "findTblFiles exWalk exTargets ''k'' = Inr exTblFiles \<and> dom exTblFiles \<noteq> {} \<and>
   buildSyscallRenameMap insertionSortCmpFunc ''amd64'' exTargets exWalk exRead
       [''k/arch/x86/s.tbl'', ''k/arch/arm64/s.tbl''] [''umount2'', ''read'', ''umount''] ''k''
     = renameLoop insertionSortCmpFunc ''amd64'' exSyscalls [''umount2'', ''read'', ''umount''] Map.empty \<and>
   findTblFiles exWalk exTargets ''empty'' = Inr Map.empty \<and>
   buildSyscallRenameMap insertionSortCmpFunc ''amd64'' exTargets exWalk exRead [] [] ''empty''
     = Inl (NoTblFiles ''empty'') \<and>
   buildSyscallRenameMap insertionSortCmpFunc ''amd64'' exTargets noTreeWalk exRead [] [] ''missing''
     = Inl (OsError ''lstat missing/arch/x86: no such file or directory'') \<and>
   walksComplete exWalk exTargets ''empty'' \<and>
   \<not> walksComplete noTreeWalk exTargets ''missing''"
proof -
  have c: "walksComplete exWalk exTargets ''empty''"
    by (simp add: walksComplete_def exWalk_def exTargets_def)
  have n: "\<not> walksComplete noTreeWalk exTargets ''missing''"
    by (auto simp: walksComplete_def noTreeWalk_def exTargets_def)
  have w: "findTblFiles noTreeWalk exTargets ''missing''
      = Inl (OsError ''lstat missing/arch/x86: no such file or directory'')"
    by (simp add: findTblFiles_def noTreeWalk_def exTargets_def)
  have 3: "buildSyscallRenameMap insertionSortCmpFunc ''amd64'' exTargets noTreeWalk exRead [] [] ''missing''
     = Inl (OsError ''lstat missing/arch/x86: no such file or directory'')"
    using C9_no_table_files [of insertionSortCmpFunc "''amd64''" exTargets noTreeWalk exRead "[]" "[]" "''missing''"
        Map.empty "OsError ''lstat missing/arch/x86: no such file or directory''"] w
    by blast
  have d: "dom exTblFiles \<noteq> {}" by (simp add: exTblFiles_def)
  have e: "findTblFiles exWalk exTargets ''empty'' = Inr Map.empty"
    by (simp add: findTblFiles_def exWalk_def exTargets_def)
  have "buildSyscallRenameMap insertionSortCmpFunc ''amd64'' exTargets exWalk exRead
       [''k/arch/x86/s.tbl'', ''k/arch/arm64/s.tbl''] [''umount2'', ''read'', ''umount''] ''k''
     = (case parseFiles exRead exTblFiles [''k/arch/x86/s.tbl'', ''k/arch/arm64/s.tbl'']
               Map.empty of
          Inl e \<Rightarrow> Inl e
        | Inr syscalls \<Rightarrow> renameLoop insertionSortCmpFunc ''amd64'' syscalls [''umount2'', ''read'', ''umount'']
            Map.empty)"
    using C9_no_table_files [of insertionSortCmpFunc "''amd64''" exTargets exWalk exRead
      "[''k/arch/x86/s.tbl'', ''k/arch/arm64/s.tbl'']" "[''umount2'', ''read'', ''umount'']" "''k''"
      exTblFiles] ex_findTblFiles d
    by blast
  then have 1: "buildSyscallRenameMap insertionSortCmpFunc ''amd64'' exTargets exWalk exRead
       [''k/arch/x86/s.tbl'', ''k/arch/arm64/s.tbl''] [''umount2'', ''read'', ''umount''] ''k''
     = renameLoop insertionSortCmpFunc ''amd64'' exSyscalls [''umount2'', ''read'', ''umount''] Map.empty"
    by (simp only: ex_parseFiles sum.case)
  have "\<exists>tblFiles. findTblFiles exWalk exTargets ''empty'' = Inr tblFiles \<and> dom tblFiles = {}"
    using e by simp
  then have 2: "buildSyscallRenameMap insertionSortCmpFunc ''amd64'' exTargets exWalk exRead [] [] ''empty''
     = Inl (NoTblFiles ''empty'')"
    using C9_no_table_files [of insertionSortCmpFunc "''amd64''" exTargets exWalk exRead "[]" "[]" "''empty''" Map.empty]
    by blast
  from ex_findTblFiles d 1 e 2 3 c n show ?thesis by (intro conjI)
qed

text \<open>
  C9 as stated fails where a walk fails. In the tree without \<open>k/arch/arm64\<close> the first walk
  discovers the table file \<open>k/arch/x86/s.tbl\<close>, which parses without error, and yet the
  resolver does not go on to parse it: it returns the error of the second walk. For a source
  directory that does not exist no table file is discovered, and the resolver fails with the
  error of the walk, not with the no-table-files error.
\<close>

theorem C9_walk_error_counterexample:
  "walkFn ''amd64'' (partWalk [''k'', ''arch'', ''x86'']) Map.empty = Inr partTblFiles \<and>
   dom partTblFiles = {''k/arch/x86/s.tbl''} \<and>
   parseFiles exRead partTblFiles [''k/arch/x86/s.tbl''] Map.empty = Inr partSyscalls \<and>
   buildSyscallRenameMap insertionSortCmpFunc ''amd64'' exTargets partWalk exRead
       [''k/arch/x86/s.tbl''] [''read'', ''umount'', ''umount2''] ''k''
     = Inl (OsError ''lstat k/arch/arm64: no such file or directory'') \<and>
   filter (\<lambda>(p, e). strings_HasSuffix p ''.tbl'')
       (concat (map (\<lambda>a. noTreeWalk [''missing'', ''arch'', KernelHeaderArch a]) exTargets)) = [] \<and>
   buildSyscallRenameMap insertionSortCmpFunc ''amd64'' exTargets noTreeWalk exRead [] [] ''missing''
     = Inl (OsError ''lstat missing/arch/x86: no such file or directory'') \<and>
   buildSyscallRenameMap insertionSortCmpFunc ''amd64'' exTargets noTreeWalk exRead [] [] ''missing''
     \<noteq> Inl (NoTblFiles ''missing'')"
proof (intro conjI)
  show "walkFn ''amd64'' (partWalk [''k'', ''arch'', ''x86'']) Map.empty = Inr partTblFiles"
    by (simp add: partWalk_def partTblFiles_def appendTo_def lookup_def strings_HasSuffix_def)
  show "dom partTblFiles = {''k/arch/x86/s.tbl''}"
    by (simp add: partTblFiles_def)
  show "parseFiles exRead partTblFiles [''k/arch/x86/s.tbl''] Map.empty = Inr partSyscalls"
    by (simp add: exRead_def partTblFiles_def partSyscalls_def lookup_def parseTblFile_def
        scanLines_def dropCR_def parseTblLine_def Let_def strings_Fields_def asciiSpace_def
        spaceRune2_def spaceRune3_def strings_TrimPrefix_def strings_HasPrefix_def appendTo_def)
  show "buildSyscallRenameMap insertionSortCmpFunc ''amd64'' exTargets partWalk exRead
       [''k/arch/x86/s.tbl''] [''read'', ''umount'', ''umount2''] ''k''
     = Inl (OsError ''lstat k/arch/arm64: no such file or directory'')"
    by (simp add: buildSyscallRenameMap_def findTblFiles_def partWalk_def exTargets_def
        appendTo_def lookup_def strings_HasSuffix_def)
  show "filter (\<lambda>(p, e). strings_HasSuffix p ''.tbl'')
       (concat (map (\<lambda>a. noTreeWalk [''missing'', ''arch'', KernelHeaderArch a]) exTargets)) = []"
    by (simp add: noTreeWalk_def exTargets_def strings_HasSuffix_def)
  show "buildSyscallRenameMap insertionSortCmpFunc ''amd64'' exTargets noTreeWalk exRead [] [] ''missing''
     = Inl (OsError ''lstat missing/arch/x86: no such file or directory'')"
    by (simp add: buildSyscallRenameMap_def findTblFiles_def noTreeWalk_def exTargets_def)
  show "buildSyscallRenameMap insertionSortCmpFunc ''amd64'' exTargets noTreeWalk exRead [] [] ''missing''
     \<noteq> Inl (NoTblFiles ''missing'')"
    by (simp add: buildSyscallRenameMap_def findTblFiles_def noTreeWalk_def exTargets_def)
qed


section \<open>Properties of the catalog\<close>

lemma fold_manual_names:
  "fold (\<lambda>c m. if file \<noteq> autoFile then m(c := True) else m) names m c'
     \<longleftrightarrow> m c' \<or> (file \<noteq> autoFile \<and> c' \<in> set names)"
  by (induction names arbitrary: m) auto

lemma fold_manual_consts:
  "fold (\<lambda>(file, names) manual.
             fold (\<lambda>c m. if file \<noteq> (autoFile :: string) then m(c := True) else m) names manual)
        cs m (c' :: string)
     \<longleftrightarrow> m c' \<or> (\<exists>(file, names)\<in>set cs. file \<noteq> autoFile \<and> c' \<in> set names)"
proof -
  define step :: "string \<times> string list \<Rightarrow> (string \<Rightarrow> bool) \<Rightarrow> string \<Rightarrow> bool" where
    "step = (\<lambda>(file, names) manual.
             fold (\<lambda>c m. if file \<noteq> autoFile then m(c := True) else m) names manual)"
  have one: "\<And>fl names m. step (fl, names) m c' \<longleftrightarrow> m c' \<or> (fl \<noteq> autoFile \<and> c' \<in> set names)"
    by (simp add: step_def fold_manual_names)
  have "fold step cs m c'
     \<longleftrightarrow> m c' \<or> (\<exists>(file, names)\<in>set cs. file \<noteq> autoFile \<and> c' \<in> set names)"
  proof (induction cs arbitrary: m)
    case Nil
    then show ?case by simp
  next
    case (Cons fc cs)
    obtain fl names where fc: "fc = (fl, names)" by (cases fc)
    have "fold step (fc # cs) m c' = fold step cs (step (fl, names) m) c'"
      by (simp add: fc)
    also have "\<dots> \<longleftrightarrow> step (fl, names) m c'
        \<or> (\<exists>(file, names)\<in>set cs. file \<noteq> autoFile \<and> c' \<in> set names)"
      by (rule Cons.IH)
    also have "\<dots> \<longleftrightarrow> m c'
        \<or> (\<exists>(file, names)\<in>set (fc # cs). file \<noteq> autoFile \<and> c' \<in> set names)"
      by (auto simp: one fc)
    finally show ?case .
  qed
  then show ?thesis by (simp add: step_def)
qed

lemma manualConsts_iff:
  "manualConsts autoFile consts c
     \<longleftrightarrow> (\<exists>(file, names)\<in>set consts. file \<noteq> autoFile \<and> c \<in> set names)"
  by (simp add: manualConsts_def fold_manual_consts)

lemma enriched_finishOne: "enriched manual extract old (finishOne manual extract old)"
  by (simp add: enriched_def finishOne_def)

lemma enriched_again:
  "enriched manual extract old new \<Longrightarrow> enriched manual extract old (finishOne manual extract new)"
  by (auto simp: enriched_def finishOne_def split: if_splits)

lemma fold_finishOne:
  "(q \<in> set ps \<longrightarrow>
      enriched manual extract (st q)
        (fold (\<lambda>p st. st(p := finishOne manual extract (st p))) ps st q)) \<and>
   (q \<notin> set ps \<longrightarrow> fold (\<lambda>p st. st(p := finishOne manual extract (st p))) ps st q = st q)"
proof (induction ps rule: rev_induct)
  case Nil
  then show ?case by simp
next
  case (snoc p ps)
  show ?case
  proof (cases "q = p")
    case True
    with snoc show ?thesis
      by (cases "p \<in> set ps") (auto simp: enriched_finishOne enriched_again)
  next
    case False
    with snoc show ?thesis by auto
  qed
qed

lemma finishInterfaces_enriched:
  "p \<in> set interfaces \<Longrightarrow>
     enriched (manualConsts autoFile consts) extract (store p)
       (finishInterfaces interfaces consts autoFile extract store p)"
  using fold_finishOne [of p interfaces "manualConsts autoFile consts" "extract" store]
  by (simp add: finishInterfaces_def)

lemma finishInterfaces_other:
  "p \<notin> set interfaces \<Longrightarrow> finishInterfaces interfaces consts autoFile extract store p = store p"
  using fold_finishOne [of p interfaces "manualConsts autoFile consts" "extract" store]
  by (simp add: finishInterfaces_def)

lemma concat_tab: "concat (map ((#) (CHR 0x09)) (g # gs)) = CHR 0x09 # joinTab (g # gs)"
proof (induction gs arbitrary: g)
  case Nil
  then show ?case by simp
next
  case (Cons h gs)
  have "concat (map ((#) (CHR 0x09)) (g # h # gs))
      = (CHR 0x09 # g) @ concat (map ((#) (CHR 0x09)) (h # gs))"
    by simp
  also have "\<dots> = (CHR 0x09 # g) @ CHR 0x09 # joinTab (h # gs)"
    by (simp only: Cons.IH)
  also have "\<dots> = CHR 0x09 # joinTab (g # h # gs)"
    by simp
  finally show ?case .
qed

lemma joinTab_append:
  "fs \<noteq> [] \<Longrightarrow> joinTab (fs @ gs) = joinTab fs @ concat (map ((#) (CHR 0x09)) gs)"
proof (induction fs rule: joinTab.induct)
  case 1
  then show ?case by simp
next
  case (2 f)
  show ?case
  proof (cases gs)
    case Nil
    then show ?thesis by simp
  next
    case (Cons g gs')
    have "joinTab ([f] @ gs) = f @ CHR 0x09 # joinTab (g # gs')"
      by (simp add: Cons)
    also have "\<dots> = f @ concat (map ((#) (CHR 0x09)) (g # gs'))"
      by (simp only: concat_tab)
    finally show ?thesis by (simp add: Cons)
  qed
next
  case (3 f g fs)
  then show ?case by simp
qed

lemma serializeOne_fields: "serializeOne iface = joinTab (catalogFields iface) @ [CHR 0x0A]"
proof -
  have "catalogFields iface =
     [Type iface, Name iface, ''func:'' @ Func iface, ''access:'' @ Access iface,
      ''manual_desc:'' @ fmtBool (ManualDescriptions iface),
      ''auto_desc:'' @ fmtBool (AutoDescriptions iface)]
     @ (map (\<lambda>file. ''file:'' @ file) (Files iface)
        @ map (\<lambda>subsys. ''subsystem:'' @ subsys) (Subsystems iface))"
    by (simp add: catalogFields_def)
  then have "joinTab (catalogFields iface) =
     joinTab [Type iface, Name iface, ''func:'' @ Func iface, ''access:'' @ Access iface,
      ''manual_desc:'' @ fmtBool (ManualDescriptions iface),
      ''auto_desc:'' @ fmtBool (AutoDescriptions iface)]
     @ concat (map ((#) (CHR 0x09)) (map (\<lambda>file. ''file:'' @ file) (Files iface)
        @ map (\<lambda>subsys. ''subsystem:'' @ subsys) (Subsystems iface)))"
    by (simp only: joinTab_append [OF list.distinct(2)])
  then show ?thesis
    by (simp add: serializeOne_def comp_def)
qed

lemma splitTab_no_tab:
  "CHR 0x09 \<notin> set f \<Longrightarrow> splitTab cur (f @ rest) = splitTab (cur @ f) rest"
  by (induction f arbitrary: cur) auto

lemma splitTab_joinTab:
  "fs \<noteq> [] \<Longrightarrow> \<forall>f\<in>set fs. CHR 0x09 \<notin> set f \<Longrightarrow> splitTab [] (joinTab fs) = fs"
proof (induction fs rule: joinTab.induct)
  case 1
  then show ?case by simp
next
  case (2 f)
  then show ?case using splitTab_no_tab [of f "[]" "[]"] by simp
next
  case (3 f g fs)
  then have "splitTab [] (f @ CHR 0x09 # joinTab (g # fs)) = splitTab f (CHR 0x09 # joinTab (g # fs))"
    using splitTab_no_tab [of f "[]" "CHR 0x09 # joinTab (g # fs)"] by simp
  with 3 show ?case by simp
qed

lemma ex_finish_0:
  "finishInterfaces [0, 1] exConsts ''sys/linux/auto.txt'' exExtract exStore 0
     = exIface\<lparr>ManualDescriptions := True, Subsystems := [''fs'', ''net'']\<rparr>"
  by (simp add: finishInterfaces_def finishOne_def manualConsts_def exConsts_def exStore_def
      exIface_def exBare_def exExtract_def)

section \<open>Claims about the catalog\<close>

text \<open>
  C7. After enrichment the manual-description flag of every record of the slice is true
  exactly when its identifying constant is among the constants of a file other than the
  synthesized file. Enrichment is a total function (it has no error to return); it adds the
  extracted subsystem names to the record's list, so a record that had no subsystems and
  matches none still has none, and a record matching no manual constant has the flag false.
  The identifying constant and the files are left as they were, and so is every record the
  slice does not point to.
\<close>

theorem C7_enrichment:
  "(\<forall>p\<in>set interfaces.
      (ManualDescriptions (finishInterfaces interfaces consts autoFile extract store p)
         \<longleftrightarrow> (\<exists>(file, names)\<in>set consts.
                file \<noteq> autoFile \<and> IdentifyingConst (store p) \<in> set names)) \<and>
      (Subsystems (store p) = [] \<and> extract (Files (store p)) = []
         \<longrightarrow> Subsystems (finishInterfaces interfaces consts autoFile extract store p) = []) \<and>
      set (Subsystems (finishInterfaces interfaces consts autoFile extract store p))
         = set (Subsystems (store p)) \<union> set (extract (Files (store p))) \<and>
      IdentifyingConst (finishInterfaces interfaces consts autoFile extract store p)
         = IdentifyingConst (store p) \<and>
      Files (finishInterfaces interfaces consts autoFile extract store p) = Files (store p)) \<and>
   (\<forall>p. p \<notin> set interfaces \<longrightarrow>
      finishInterfaces interfaces consts autoFile extract store p = store p)"
proof (intro conjI ballI allI impI)
  fix p
  assume "p \<in> set interfaces"
  then have e: "enriched (manualConsts autoFile consts) extract (store p)
       (finishInterfaces interfaces consts autoFile extract store p)"
    by (rule finishInterfaces_enriched)
  from e show "ManualDescriptions (finishInterfaces interfaces consts autoFile extract store p)
         \<longleftrightarrow> (\<exists>(file, names)\<in>set consts.
                file \<noteq> autoFile \<and> IdentifyingConst (store p) \<in> set names)"
    by (simp add: enriched_def manualConsts_iff)
  from e show "set (Subsystems (finishInterfaces interfaces consts autoFile extract store p))
         = set (Subsystems (store p)) \<union> set (extract (Files (store p)))"
    by (simp add: enriched_def)
  from e show "IdentifyingConst (finishInterfaces interfaces consts autoFile extract store p)
         = IdentifyingConst (store p)"
    by (simp add: enriched_def)
  from e show "Files (finishInterfaces interfaces consts autoFile extract store p)
         = Files (store p)"
    by (simp add: enriched_def)
  assume "Subsystems (store p) = [] \<and> extract (Files (store p)) = []"
  with e show "Subsystems (finishInterfaces interfaces consts autoFile extract store p) = []"
    by (simp add: enriched_def)
next
  fix p
  assume "p \<notin> set interfaces"
  then show "finishInterfaces interfaces consts autoFile extract store p = store p"
    by (rule finishInterfaces_other)
qed

text \<open>\<open>FIONBIO\<close> is declared by a hand-written file, \<open>__NR_read\<close> by the synthesized file
  only; the second record has no files and so no subsystems.\<close>

theorem C7_enrichment_witness:
  "ManualDescriptions (finishInterfaces [0, 1] exConsts ''sys/linux/auto.txt'' exExtract
      exStore 0) \<and>
   \<not> ManualDescriptions (finishInterfaces [0, 1] exConsts ''sys/linux/auto.txt'' exExtract
      exStore 1) \<and>
   Subsystems (finishInterfaces [0, 1] exConsts ''sys/linux/auto.txt'' exExtract exStore 1) = [] \<and>
   set (Subsystems (finishInterfaces [0, 1] exConsts ''sys/linux/auto.txt'' exExtract exStore 0))
     = {''net'', ''fs''} \<and>
   finishInterfaces [0, 1] exConsts ''sys/linux/auto.txt'' exExtract exStore 2 = exStore 2"
  using C7_enrichment [of "[0, 1]" exConsts "''sys/linux/auto.txt''" exExtract exStore]
  by (simp add: exConsts_def exStore_def exIface_def exBare_def exExtract_def)

text \<open>
  C8 (as the code has it). The catalog is one line per record of the slice; a line is the
  tab-separated list of the six fixed fields (type, name, \<open>func:\<close>, \<open>access:\<close>, \<open>manual_desc:\<close>,
  \<open>auto_desc:\<close>), then one \<open>file:\<close> field per file in the record's order, then one
  \<open>subsystem:\<close> field per subsystem in the record's order, and a line feed. When no value
  holds a tab, splitting the line at its tabs gives these fields back. After enrichment the
  subsystems of every record of the slice are in ascending order.
\<close>

theorem C8_catalog_line:
  "serialize interfaces store
     = concat (map (\<lambda>p. joinTab (catalogFields (store p)) @ [CHR 0x0A]) interfaces) \<and>
   length (catalogFields (store p))
     = 6 + length (Files (store p)) + length (Subsystems (store p)) \<and>
   ((\<forall>v\<in>set (catalogFields (store p)). CHR 0x09 \<notin> set v) \<longrightarrow>
      splitTab [] (joinTab (catalogFields (store p))) = catalogFields (store p)) \<and>
   (p \<in> set interfaces \<longrightarrow>
      sorted (Subsystems (finishInterfaces interfaces consts autoFile extract store p)))"
proof (intro conjI impI)
  show "serialize interfaces store
     = concat (map (\<lambda>p. joinTab (catalogFields (store p)) @ [CHR 0x0A]) interfaces)"
    by (simp add: serialize_def serializeOne_fields)
  show "length (catalogFields (store p))
     = 6 + length (Files (store p)) + length (Subsystems (store p))"
    by (simp add: catalogFields_def)
next
  assume "\<forall>v\<in>set (catalogFields (store p)). CHR 0x09 \<notin> set v"
  moreover have "catalogFields (store p) \<noteq> []" by (simp add: catalogFields_def)
  ultimately show "splitTab [] (joinTab (catalogFields (store p))) = catalogFields (store p)"
    by (simp add: splitTab_joinTab)
next
  assume "p \<in> set interfaces"
  then have "enriched (manualConsts autoFile consts) extract (store p)
       (finishInterfaces interfaces consts autoFile extract store p)"
    by (rule finishInterfaces_enriched)
  then show "sorted (Subsystems (finishInterfaces interfaces consts autoFile extract store p))"
    by (simp add: enriched_def)
qed

text \<open>The extractor returns \<open>net\<close>, \<open>fs\<close>; the line has \<open>fs\<close> before \<open>net\<close>.\<close>

theorem C8_catalog_line_witness:
  "serialize [0] (finishInterfaces [0, 1] exConsts ''sys/linux/auto.txt'' exExtract exStore)
     = ''IOCTL'' @ [CHR 0x09] @ ''FIONBIO'' @ [CHR 0x09] @ ''func:sock_ioctl'' @ [CHR 0x09]
       @ ''access:user'' @ [CHR 0x09] @ ''manual_desc:true'' @ [CHR 0x09] @ ''auto_desc:true''
       @ [CHR 0x09] @ ''file:net/socket.c'' @ [CHR 0x09] @ ''file:fs/ioctl.c''
       @ [CHR 0x09] @ ''subsystem:fs'' @ [CHR 0x09] @ ''subsystem:net'' @ [CHR 0x0A] \<and>
   splitTab [] (joinTab (catalogFields
       (finishInterfaces [0, 1] exConsts ''sys/linux/auto.txt'' exExtract exStore 0)))
     = [''IOCTL'', ''FIONBIO'', ''func:sock_ioctl'', ''access:user'', ''manual_desc:true'',
        ''auto_desc:true'', ''file:net/socket.c'', ''file:fs/ioctl.c'', ''subsystem:fs'',
        ''subsystem:net''] \<and>
   sorted (Subsystems (finishInterfaces [0, 1] exConsts ''sys/linux/auto.txt'' exExtract
       exStore 0))"
proof -
  have f: "catalogFields (finishInterfaces [0, 1] exConsts ''sys/linux/auto.txt'' exExtract
       exStore 0)
     = [''IOCTL'', ''FIONBIO'', ''func:sock_ioctl'', ''access:user'', ''manual_desc:true'',
        ''auto_desc:true'', ''file:net/socket.c'', ''file:fs/ioctl.c'', ''subsystem:fs'',
        ''subsystem:net'']"
    by (simp only: ex_finish_0) (simp add: catalogFields_def exIface_def fmtBool_def)
  have n: "\<forall>v\<in>set (catalogFields (finishInterfaces [0, 1] exConsts ''sys/linux/auto.txt''
       exExtract exStore 0)). CHR 0x09 \<notin> set v"
    unfolding f by simp
  have m: "(0::nat) \<in> set [0, 1]" by simp
  from C8_catalog_line [of "[0]"
      "finishInterfaces [0, 1] exConsts ''sys/linux/auto.txt'' exExtract exStore" 0]
  have 1: "serialize [0] (finishInterfaces [0, 1] exConsts ''sys/linux/auto.txt'' exExtract
        exStore)
     = joinTab (catalogFields (finishInterfaces [0, 1] exConsts ''sys/linux/auto.txt'' exExtract
        exStore 0)) @ [CHR 0x0A]"
    and 2: "splitTab [] (joinTab (catalogFields (finishInterfaces [0, 1] exConsts
        ''sys/linux/auto.txt'' exExtract exStore 0)))
      = catalogFields (finishInterfaces [0, 1] exConsts ''sys/linux/auto.txt'' exExtract
        exStore 0)"
    using n by simp_all
  from C8_catalog_line [of "[0, 1]" exStore 0 exConsts "''sys/linux/auto.txt''" exExtract] m
  have 3: "sorted (Subsystems (finishInterfaces [0, 1] exConsts ''sys/linux/auto.txt'' exExtract
       exStore 0))"
    by blast
  from 1 2 3 show ?thesis unfolding f by simp
qed

text \<open>
  C8 as stated fails: the fixed fields are six, not seven. The line of a record with no
  files and no subsystems has exactly six tab-separated fields. And \<open>serialize\<close> itself
  does not sort: a record that has not been enriched is written with its subsystems in the
  stored order.
\<close>

theorem C8_six_fields_counterexample:
  "serialize [1] exStore
     = ''SYSCALL'' @ [CHR 0x09] @ ''read'' @ [CHR 0x09] @ ''func:__do_sys_read'' @ [CHR 0x09]
       @ ''access:user'' @ [CHR 0x09] @ ''manual_desc:false'' @ [CHR 0x09]
       @ ''auto_desc:false'' @ [CHR 0x0A] \<and>
   splitTab [] (butlast (serialize [1] exStore))
     = [''SYSCALL'', ''read'', ''func:__do_sys_read'', ''access:user'', ''manual_desc:false'',
        ''auto_desc:false''] \<and>
   length (splitTab [] (butlast (serialize [1] exStore))) = 6 \<and>
   serialize [0] (\<lambda>p. exBare\<lparr>Subsystems := [''net'', ''fs'']\<rparr>)
     = ''SYSCALL'' @ [CHR 0x09] @ ''read'' @ [CHR 0x09] @ ''func:__do_sys_read'' @ [CHR 0x09]
       @ ''access:user'' @ [CHR 0x09] @ ''manual_desc:false'' @ [CHR 0x09]
       @ ''auto_desc:false'' @ [CHR 0x09] @ ''subsystem:net'' @ [CHR 0x09] @ ''subsystem:fs''
       @ [CHR 0x0A]"
  by (simp add: serialize_def serializeOne_def exStore_def exBare_def fmtBool_def)

section \<open>Properties of pruning and of the pipeline\<close>

lemma osutil_WriteFile_frame:
  "osutil_WriteFile wr path data fs = (r, fs') \<Longrightarrow> p \<noteq> path \<Longrightarrow> fs' p = fs p"
  by (auto simp: osutil_WriteFile_def split: option.splits)

lemma osutil_WriteFile_ok:
  "osutil_WriteFile wr path data fs = (None, fs') \<Longrightarrow> fs' = fs(path \<mapsto> data)"
  by (auto simp: osutil_WriteFile_def split: option.splits)

lemma unusedMap_iff:
  "unusedMap unusedNodes k \<longleftrightarrow> k \<in> (\<lambda>n. nodeTyp n @ nodeName n) ` set unusedNodes"
proof -
  have "\<And>m. fold (\<lambda>n unused. unused(nodeTyp n @ nodeName n := True)) unusedNodes m k
      \<longleftrightarrow> m k \<or> k \<in> (\<lambda>n. nodeTyp n @ nodeName n) ` set unusedNodes"
    by (induction unusedNodes) auto
  then show ?thesis by (simp add: unusedMap_def)
qed

lemma prune_nodeFile: "n \<in> set (prune autoFile unused nodes) \<Longrightarrow> nodeFile n = autoFile"
  by (auto simp: prune_def)

lemma run_frame:
  assumes "run c wr rn autoFile fs = (r, fs')" "p \<noteq> autoFile" "p \<noteq> autoFile @ ''.info''"
  shows "fs' p = fs p"
  using assms
  unfolding run_def
  by (auto split: sum.splits prod.splits option.splits dest!: osutil_WriteFile_frame [where p = p])

lemma run_success:
  assumes "run c wr rn autoFile fs = (None, fs')"
  shows "\<exists>fs2 desc unusedNodes formatted.
          ast_ParseGlob c fs2 autoFile = Inr desc \<and>
          compiler_CollectUnused c desc = Inr unusedNodes \<and>
          ast_Parse c (ast_Format c (prune autoFile (unusedMap unusedNodes) desc)) autoFile
            = Some formatted \<and>
          fs' autoFile = Some (ast_Format c formatted)"
  using assms unfolding run_def
  by (auto split: sum.splits prod.splits option.splits dest!: osutil_WriteFile_ok; blast)

section \<open>Claims about the pipeline\<close>

text \<open>
  C1 (as the code has it). Pruning keeps, in their order, exactly the nodes that are sourced
  from the synthesized file and whose kind and name, concatenated, are not those of a node in
  the unused list. Every node sourced from another file is removed from the document.
\<close>

theorem C1_prune:
  "prune autoFile (unusedMap unusedNodes) nodes
     = filter (\<lambda>n. nodeFile n = autoFile \<and>
                 nodeTyp n @ nodeName n \<notin> (\<lambda>u. nodeTyp u @ nodeName u) ` set unusedNodes) nodes \<and>
   (nodeFile n \<noteq> autoFile \<longrightarrow> n \<notin> set (prune autoFile (unusedMap unusedNodes) nodes)) \<and>
   (n \<in> set nodes \<and> nodeFile n = autoFile \<longrightarrow>
      (n \<in> set (prune autoFile (unusedMap unusedNodes) nodes)
         \<longleftrightarrow> \<not> (\<exists>u\<in>set unusedNodes. nodeTyp u @ nodeName u = nodeTyp n @ nodeName n)))"
proof (intro conjI impI)
  show "prune autoFile (unusedMap unusedNodes) nodes
     = filter (\<lambda>n. nodeFile n = autoFile \<and>
                 nodeTyp n @ nodeName n \<notin> (\<lambda>u. nodeTyp u @ nodeName u) ` set unusedNodes) nodes"
    by (simp add: prune_def unusedMap_iff)
  assume "nodeFile n \<noteq> autoFile"
  then show "n \<notin> set (prune autoFile (unusedMap unusedNodes) nodes)"
    by (simp add: prune_def)
next
  assume "n \<in> set nodes \<and> nodeFile n = autoFile"
  then show "n \<in> set (prune autoFile (unusedMap unusedNodes) nodes)
         \<longleftrightarrow> \<not> (\<exists>u\<in>set unusedNodes. nodeTyp u @ nodeName u = nodeTyp n @ nodeName n)"
    by (auto simp: prune_def unusedMap_iff image_iff)
qed

text \<open>Of the four example nodes only the used node of the synthesized file is kept: the
  unused node of the synthesized file and the nodes of the hand-written file are removed.\<close>

theorem C1_prune_witness:
  "prune ''sys/linux/auto.txt'' (unusedMap exUnused) exNodes
     = [\<lparr>nodeFile = ''sys/linux/auto.txt'', nodeTyp = ''syscall'', nodeName = ''read''\<rparr>] \<and>
   \<lparr>nodeFile = ''sys/linux/auto.txt'', nodeTyp = ''syscall'', nodeName = ''read''\<rparr> \<in> set exNodes \<and>
   \<lparr>nodeFile = ''sys/linux/auto.txt'', nodeTyp = ''syscall'', nodeName = ''read''\<rparr>
     \<in> set (prune ''sys/linux/auto.txt'' (unusedMap exUnused) exNodes) \<and>
   \<lparr>nodeFile = ''sys/linux/auto.txt'', nodeTyp = ''struct'', nodeName = ''auto_unused''\<rparr>
     \<in> set exNodes \<and>
   \<lparr>nodeFile = ''sys/linux/auto.txt'', nodeTyp = ''struct'', nodeName = ''auto_unused''\<rparr>
     \<notin> set (prune ''sys/linux/auto.txt'' (unusedMap exUnused) exNodes) \<and>
   \<lparr>nodeFile = ''sys/linux/socket.txt'', nodeTyp = ''syscall'', nodeName = ''socket''\<rparr>
     \<notin> set (prune ''sys/linux/auto.txt'' (unusedMap exUnused) exNodes)"
  using C1_prune [of "''sys/linux/auto.txt''" exUnused exNodes
      "\<lparr>nodeFile = ''sys/linux/auto.txt'', nodeTyp = ''syscall'', nodeName = ''read''\<rparr>"]
    C1_prune [of "''sys/linux/auto.txt''" exUnused exNodes
      "\<lparr>nodeFile = ''sys/linux/auto.txt'', nodeTyp = ''struct'', nodeName = ''auto_unused''\<rparr>"]
    C1_prune [of "''sys/linux/auto.txt''" exUnused exNodes
      "\<lparr>nodeFile = ''sys/linux/socket.txt'', nodeTyp = ''syscall'', nodeName = ''socket''\<rparr>"]
  by (simp add: exNodes_def exUnused_def)

text \<open>
  C1 as stated fails: a node of a hand-written file is not in the document after pruning,
  whether the type checker marked it unused (\<open>sockaddr\<close>) or not (\<open>socket\<close>).
\<close>

theorem C1_hand_authored_counterexample:
  "\<lparr>nodeFile = ''sys/linux/socket.txt'', nodeTyp = ''struct'', nodeName = ''sockaddr''\<rparr>
     \<in> set exNodes \<and>
   \<lparr>nodeFile = ''sys/linux/socket.txt'', nodeTyp = ''struct'', nodeName = ''sockaddr''\<rparr>
     \<in> set exUnused \<and>
   \<lparr>nodeFile = ''sys/linux/socket.txt'', nodeTyp = ''struct'', nodeName = ''sockaddr''\<rparr>
     \<notin> set (prune ''sys/linux/auto.txt'' (unusedMap exUnused) exNodes) \<and>
   \<lparr>nodeFile = ''sys/linux/socket.txt'', nodeTyp = ''syscall'', nodeName = ''socket''\<rparr>
     \<in> set exNodes \<and>
   \<lparr>nodeFile = ''sys/linux/socket.txt'', nodeTyp = ''syscall'', nodeName = ''socket''\<rparr>
     \<notin> set exUnused \<and>
   \<lparr>nodeFile = ''sys/linux/socket.txt'', nodeTyp = ''syscall'', nodeName = ''socket''\<rparr>
     \<notin> set (prune ''sys/linux/auto.txt'' (unusedMap exUnused) exNodes)"
  by (simp add: prune_def unusedMap_def exNodes_def exUnused_def)

text \<open>
  C10. Whatever the collaborators return and whichever writes fail, a run leaves every path
  other than the synthesized file and its \<open>.info\<close> sibling as it was. When the run succeeds,
  the synthesized file holds the formatted re-parse of the pruned document, and every node of
  the pruned document is sourced from the synthesized file.
\<close>

theorem C10_only_auto_files_written:
  "(p \<noteq> autoFile \<and> p \<noteq> autoFile @ ''.info''
      \<longrightarrow> snd (run c wr syscallRename autoFile fs) p = fs p) \<and>
   (fst (run c wr syscallRename autoFile fs) = None \<longrightarrow>
      (\<exists>fs2 desc unusedNodes formatted.
          ast_ParseGlob c fs2 autoFile = Inr desc \<and>
          compiler_CollectUnused c desc = Inr unusedNodes \<and>
          ast_Parse c (ast_Format c (prune autoFile (unusedMap unusedNodes) desc)) autoFile
            = Some formatted \<and>
          snd (run c wr syscallRename autoFile fs) autoFile = Some (ast_Format c formatted) \<and>
          (\<forall>n\<in>set (prune autoFile (unusedMap unusedNodes) desc). nodeFile n = autoFile)))"
proof (intro conjI impI)
  assume "p \<noteq> autoFile \<and> p \<noteq> autoFile @ ''.info''"
  then show "snd (run c wr syscallRename autoFile fs) p = fs p"
    using run_frame [of c wr syscallRename autoFile fs
        "fst (run c wr syscallRename autoFile fs)" "snd (run c wr syscallRename autoFile fs)" p]
    by simp
next
  assume "fst (run c wr syscallRename autoFile fs) = None"
  then have "run c wr syscallRename autoFile fs = (None, snd (run c wr syscallRename autoFile fs))"
    by (metis prod.collapse)
  from run_success [OF this]
  show "\<exists>fs2 desc unusedNodes formatted.
          ast_ParseGlob c fs2 autoFile = Inr desc \<and>
          compiler_CollectUnused c desc = Inr unusedNodes \<and>
          ast_Parse c (ast_Format c (prune autoFile (unusedMap unusedNodes) desc)) autoFile
            = Some formatted \<and>
          snd (run c wr syscallRename autoFile fs) autoFile = Some (ast_Format c formatted) \<and>
          (\<forall>n\<in>set (prune autoFile (unusedMap unusedNodes) desc). nodeFile n = autoFile)"
    by (auto simp: prune_nodeFile)
qed

text \<open>A run in a directory with one hand-written file: the file is untouched.\<close>

theorem C10_only_auto_files_written_witness:
  "fst (run exCollab (\<lambda>path data. None) (Inr Map.empty) ''sys/linux/auto.txt''
         [''sys/linux/socket.txt'' \<mapsto> ''socket(domain int32)'']) = None \<and>
   snd (run exCollab (\<lambda>path data. None) (Inr Map.empty) ''sys/linux/auto.txt''
         [''sys/linux/socket.txt'' \<mapsto> ''socket(domain int32)'']) ''sys/linux/socket.txt''
     = Some ''socket(domain int32)'' \<and>
   snd (run exCollab (\<lambda>path data. None) (Inr Map.empty) ''sys/linux/auto.txt''
         [''sys/linux/socket.txt'' \<mapsto> ''socket(domain int32)'']) ''sys/linux/auto.txt''
     = Some (''syscall read'' @ [CHR 0x0A])"
proof -
  have r: "fst (run exCollab (\<lambda>path data. None) (Inr Map.empty) ''sys/linux/auto.txt''
         [''sys/linux/socket.txt'' \<mapsto> ''socket(domain int32)'']) = None"
    by (simp add: run_def exCollab_def osutil_WriteFile_def)
  have a: "snd (run exCollab (\<lambda>path data. None) (Inr Map.empty) ''sys/linux/auto.txt''
         [''sys/linux/socket.txt'' \<mapsto> ''socket(domain int32)'']) ''sys/linux/auto.txt''
     = Some (''syscall read'' @ [CHR 0x0A])"
    by (simp add: run_def exCollab_def osutil_WriteFile_def)
  from C10_only_auto_files_written [of "''sys/linux/socket.txt''" "''sys/linux/auto.txt''"
      exCollab "\<lambda>path data. None" "Inr Map.empty"
      "[''sys/linux/socket.txt'' \<mapsto> ''socket(domain int32)'']"]
  have "snd (run exCollab (\<lambda>path data. None) (Inr Map.empty) ''sys/linux/auto.txt''
         [''sys/linux/socket.txt'' \<mapsto> ''socket(domain int32)'']) ''sys/linux/socket.txt''
     = Some ''socket(domain int32)''"
    by simp
  with r a show ?thesis by simp
qed

end
